theory Spec2Isabelle
  imports Main "HOL-Library.AList"
begin

section \<open>Python values and the relational store\<close>

text \<open>
  The views of \<^verbatim>\<open>coldfront/core/project/views.py\<close> work on Django model instances.
  A model instance is a database row: an integer primary key, the values of its
  concrete fields by attribute name (\<^verbatim>\<open>project_id\<close>, \<^verbatim>\<open>pi_id\<close>, \<^verbatim>\<open>name\<close>, ...) and
  the primary keys on the far side of each of its many-to-many fields.  A database
  state gives the rows of every model, by the model's label
  (\<^verbatim>\<open>project.project\<close>, \<^verbatim>\<open>auth.user\<close>, ...), in the order \<^verbatim>\<open>objects.all()\<close> returns
  them.  A QuerySet is modelled by the list of rows it evaluates to.
\<close>

datatype val = VNone | VBool bool | VInt int | VStr string

record row =
  pk :: int
  attrs :: "string \<Rightarrow> val"
  m2m :: "string \<Rightarrow> int list"

type_synonym db = "string \<Rightarrow> row list"

datatype http_error = Http404

datatype response =
    HttpResponseRedirect string "int option"
  | JsonResponse "row list list"

text \<open>\<^verbatim>\<open>get_object_or_404(Model, pk=k)\<close>: the row with that key, or Http404.\<close>

definition get_object_or_404 :: "db \<Rightarrow> string \<Rightarrow> int \<Rightarrow> http_error + row" where
  "get_object_or_404 d model k =
     (case find (\<lambda>r. pk r = k) (d model) of
        None \<Rightarrow> Inl Http404
      | Some r \<Rightarrow> Inr r)"

text \<open>
  \<^verbatim>\<open>x.status.name\<close>, \<^verbatim>\<open>role__name\<close>, \<^verbatim>\<open>status__name\<close>: follow the foreign key held in
  attribute \<open>fk\<close> into the rows of \<open>model\<close> and read \<^verbatim>\<open>name\<close> there.
\<close>

definition related_name :: "db \<Rightarrow> string \<Rightarrow> string \<Rightarrow> row \<Rightarrow> val" where
  "related_name d model fk r =
     (case find (\<lambda>c. VInt (pk c) = attrs r fk) (d model) of
        None \<Rightarrow> VNone
      | Some c \<Rightarrow> attrs c ''name'')"

section \<open>Project export\<close>

subsection \<open>\<^verbatim>\<open>ProjectExportView.test_func\<close>\<close>

text \<open>
  The method returns \<^verbatim>\<open>True\<close> on three paths and falls off its end otherwise, which
  returns \<^verbatim>\<open>None\<close>; \<^verbatim>\<open>get_object_or_404\<close> may raise before the last two tests.
\<close>

definition test_func :: "db \<Rightarrow> row \<Rightarrow> int \<Rightarrow> http_error + bool option" where
  "test_func d request_user pk_arg =
     (if attrs request_user ''is_superuser'' = VBool True then Inr (Some True)
      else
        (case get_object_or_404 d ''project.project'' pk_arg of
           Inl e \<Rightarrow> Inl e
         | Inr project_obj \<Rightarrow>
             if attrs project_obj ''pi_id'' = VInt (pk request_user) then Inr (Some True)
             else if
               filter (\<lambda>pu. attrs pu ''project_id'' = VInt (pk project_obj)
                          \<and> attrs pu ''user_id'' = VInt (pk request_user)
                          \<and> related_name d ''project.projectuserrolechoice'' ''role_id'' pu
                              = VStr ''Manager''
                          \<and> related_name d ''project.projectuserstatuschoice'' ''status_id'' pu
                              = VStr ''Active'')
                 (d ''project.projectuser'') \<noteq> []
             then Inr (Some True)
             else Inr None))"

subsection \<open>\<^verbatim>\<open>ProjectExportView.dispatch\<close>\<close>

text \<open>
  One pass of the body of the \<^verbatim>\<open>for resource in resource_query\<close> loop of
  \<^verbatim>\<open>_get_resource_query\<close>.  \<^verbatim>\<open>resource.linked_resources.all()\<close> joins the link table
  with the resource table, so it yields keys of resources that exist;
  \<^verbatim>\<open>Resource.objects.filter(parent_resource__in=all_ids)\<close> selects the resources whose
  \<^verbatim>\<open>parent_resource_id\<close> is in \<open>all_ids\<close>.
\<close>

definition linked_ids :: "db \<Rightarrow> row \<Rightarrow> int list" where
  "linked_ids d resource =
     map pk (filter (\<lambda>r. pk r \<in> set (m2m resource ''linked_resources''))
               (d ''resource.resource''))"

definition filter_parent_in :: "db \<Rightarrow> int set \<Rightarrow> row list" where
  "filter_parent_in d ids =
     filter (\<lambda>r. case attrs r ''parent_resource_id'' of VInt p \<Rightarrow> p \<in> ids | _ \<Rightarrow> False)
       (d ''resource.resource'')"

definition filter_pk_in :: "db \<Rightarrow> string \<Rightarrow> int set \<Rightarrow> row list" where
  "filter_pk_in d model ids = filter (\<lambda>r. pk r \<in> ids) (d model)"

definition for_body :: "db \<Rightarrow> row \<Rightarrow> int set \<times> row list \<Rightarrow> int set \<times> row list" where
  "for_body d resource st =
     (let all_ids = fst st;
          other_linked_ids = set (linked_ids d resource);
          all_ids = all_ids \<union> other_linked_ids;
          parent_resources = filter_parent_in d all_ids;
          all_ids = all_ids \<union> set (map pk parent_resources);
          resource_query = filter_pk_in d ''resource.resource'' all_ids
      in (all_ids, resource_query))"

text \<open>
  The \<^verbatim>\<open>for\<close> loop iterates the query set it was started on; rebinding
  \<^verbatim>\<open>resource_query\<close> in its body changes the variable, not the iteration.
\<close>

definition for_loop :: "db \<Rightarrow> row list \<Rightarrow> int set \<times> row list \<Rightarrow> int set \<times> row list" where
  "for_loop d rq st = fold (for_body d) rq st"

text \<open>
  The \<^verbatim>\<open>while old_resource_set != all_ids\<close> loop.  Nothing in its text bounds the
  number of iterations, so it is a partial function: \<open>None\<close> is "does not return".
\<close>

partial_function (option) while_loop ::
  "db \<Rightarrow> int set \<Rightarrow> int set \<Rightarrow> row list \<Rightarrow> row list option" where
  "while_loop d old_resource_set all_ids resource_query =
     (if old_resource_set \<noteq> all_ids
      then (case for_loop d resource_query (all_ids, resource_query) of
              (all_ids', resource_query') \<Rightarrow> while_loop d all_ids all_ids' resource_query')
      else Some resource_query)"

declare while_loop.simps [code]

definition get_resource_query :: "db \<Rightarrow> row list \<Rightarrow> row list option" where
  "get_resource_query d proj_alloc =
     (let resource_query =
            filter (\<lambda>r. \<exists>a \<in> set proj_alloc. pk r \<in> set (m2m a ''resources''))
              (d ''resource.resource'');
          all_ids = set (map pk resource_query)
      in while_loop d {} all_ids resource_query)"

text \<open>
  The filters of \<^verbatim>\<open>dispatch\<close>.  \<^verbatim>\<open>filter(f=v)\<close> compares the column with one value;
  \<^verbatim>\<open>filter(allocation__in=qs)\<close> compares the foreign key with the keys of the rows of
  \<open>qs\<close>; \<^verbatim>\<open>filter(f__in=vals)\<close> with a set of Python values never matches
  \<^verbatim>\<open>None\<close>.  \<^verbatim>\<open>values_list(m, flat=True)\<close> on a many-to-many field is a left join:
  one entry per linked key, and \<^verbatim>\<open>None\<close> for a row with no link.
\<close>

definition filter_attr :: "db \<Rightarrow> string \<Rightarrow> string \<Rightarrow> val \<Rightarrow> row list" where
  "filter_attr d model f v = filter (\<lambda>r. attrs r f = v) (d model)"

definition filter_fk_in :: "db \<Rightarrow> string \<Rightarrow> string \<Rightarrow> row list \<Rightarrow> row list" where
  "filter_fk_in d model f qs =
     filter (\<lambda>r. attrs r f \<in> set (map (\<lambda>q. VInt (pk q)) qs)) (d model)"

definition filter_attr_in :: "db \<Rightarrow> string \<Rightarrow> string \<Rightarrow> val set \<Rightarrow> row list" where
  "filter_attr_in d model f vals =
     filter (\<lambda>r. attrs r f \<noteq> VNone \<and> attrs r f \<in> vals) (d model)"

definition filter_pk_in_vals :: "db \<Rightarrow> string \<Rightarrow> val set \<Rightarrow> row list" where
  "filter_pk_in_vals d model vals = filter (\<lambda>r. VInt (pk r) \<in> vals) (d model)"

definition values_list_m2m :: "string \<Rightarrow> row list \<Rightarrow> val list" where
  "values_list_m2m name qs =
     concat (map (\<lambda>r. if m2m r name = [] then [VNone] else map VInt (m2m r name)) qs)"

text \<open>
  \<^verbatim>\<open>dispatch\<close> returns the redirect with an error message for a project whose status
  is neither Active nor New, and otherwise the JSON response with the eighteen
  serialized query sets, in the order of the source.  \<^verbatim>\<open>note.author.id\<close> is the
  note's \<^verbatim>\<open>author_id\<close>.
\<close>

definition dispatch :: "db \<Rightarrow> int \<Rightarrow> (http_error + string list \<times> response) option" where
  "dispatch d p_id =
     (case get_object_or_404 d ''project.project'' p_id of
        Inl e \<Rightarrow> Some (Inl e)
      | Inr project_obj \<Rightarrow>
          if related_name d ''project.projectstatuschoice'' ''status_id'' project_obj
               \<notin> {VStr ''Active'', VStr ''New''}
          then Some (Inr ([''You cannot export an archived project.''],
                          HttpResponseRedirect ''project-detail'' (Some p_id)))
          else
            (let proj_users = filter_attr d ''project.projectuser'' ''project_id'' (VInt p_id);
                 proj_alloc = filter_attr d ''allocation.allocation'' ''project_id'' (VInt p_id);
                 alloc_users = filter_fk_in d ''allocation.allocationuser'' ''allocation_id'' proj_alloc
             in case get_resource_query d proj_alloc of
                  None \<Rightarrow> None
                | Some proj_resources \<Rightarrow>
                   (let resource_user_ids = set (values_list_m2m ''allowed_users'' proj_resources);
                        resource_group_ids = set (values_list_m2m ''allowed_groups'' proj_resources);
                        alloc_attrs =
                          filter_fk_in d ''allocation.allocationattribute'' ''allocation_id'' proj_alloc;
                        alloc_change_request =
                          filter_fk_in d ''allocation.allocationchangerequest'' ''allocation_id'' proj_alloc;
                        alloc_admin_notes =
                          filter_fk_in d ''allocation.allocationadminnote'' ''allocation_id'' proj_alloc;
                        alloc_user_notes =
                          filter_fk_in d ''allocation.allocationusernote'' ''allocation_id'' proj_alloc;
                        user_ids = set (map (\<lambda>p_user. attrs p_user ''user_id'') proj_users)
                                   \<union> resource_user_ids
                                   \<union> set (map (\<lambda>note. attrs note ''author_id'') alloc_admin_notes)
                                   \<union> set (map (\<lambda>note. attrs note ''author_id'') alloc_user_notes);
                        serialized_data =
                          [ filter_pk_in d ''project.project'' {p_id},
                            filter_pk_in_vals d ''auth.user'' user_ids,
                            filter_attr_in d ''user.userprofile'' ''user_id'' user_ids,
                            filter_pk_in_vals d ''auth.group'' resource_group_ids,
                            proj_users,
                            filter_attr d ''publication.publication'' ''project_id'' (VInt p_id),
                            filter_attr d ''grant.grant'' ''project_id'' (VInt p_id),
                            proj_resources,
                            proj_alloc,
                            alloc_users,
                            alloc_attrs,
                            alloc_change_request,
                            alloc_admin_notes,
                            alloc_user_notes,
                            filter_attr d ''project.projectadmincomment'' ''project_id'' (VInt p_id),
                            filter_attr d ''project.projectusermessage'' ''project_id'' (VInt p_id),
                            filter_attr d ''project.projectreview'' ''project_id'' (VInt p_id),
                            filter_attr d ''research_output.researchoutput'' ''project_id'' (VInt p_id) ]
                    in Some (Inr ([], JsonResponse serialized_data)))))"

text \<open>
  Django serves a request by calling the \<^verbatim>\<open>dispatch\<close> method of the view.  The checks
  of \<^verbatim>\<open>LoginRequiredMixin\<close> and \<^verbatim>\<open>UserPassesTestMixin\<close> (the call of \<^verbatim>\<open>test_func\<close>) are
  the \<^verbatim>\<open>dispatch\<close> methods of these classes, which a view that overrides \<^verbatim>\<open>dispatch\<close>
  reaches through \<^verbatim>\<open>super().dispatch(request, *args, **kwargs)\<close>, as
  \<^verbatim>\<open>ProjectUpdateView\<close> and \<^verbatim>\<open>ProjectAddUsersSearchView\<close> do.  The \<^verbatim>\<open>dispatch\<close> of
  \<^verbatim>\<open>ProjectExportView\<close> returns on both of its paths without that call and never
  reads \<^verbatim>\<open>request.user\<close>: what the view answers to a request of \<open>request_user\<close> is
  what \<open>dispatch\<close> returns.
\<close>

definition export_view ::
  "db \<Rightarrow> row \<Rightarrow> int \<Rightarrow> (http_error + string list \<times> response) option" where
  "export_view d request_user pk_arg = dispatch d pk_arg"

section \<open>Project import\<close>

subsection \<open>Deserialized objects, the schema and the write path\<close>

text \<open>
  \<^verbatim>\<open>serializers.deserialize\<close> yields \<^verbatim>\<open>DeserializedObject\<close>s: a model instance that is
  not saved yet (\<^verbatim>\<open>obj.object\<close>, with its \<^verbatim>\<open>pk\<close> and its attributes) and the dictionary
  \<^verbatim>\<open>obj.m2m_data\<close> from the names of the many-to-many fields present in the document
  to lists of keys.  The class of \<^verbatim>\<open>obj.object\<close> is the one the object's own
  \<^verbatim>\<open>"model"\<close> entry names; \<open>d_model\<close> is its label.  The key of an imported object is
  what the document says, so it is a Python value (\<^verbatim>\<open>None\<close> when the document gives
  none).
\<close>

record des_obj =
  d_model :: string
  d_pk :: val
  d_attrs :: "string \<Rightarrow> val"
  d_m2m :: "string \<Rightarrow> val list option"

datatype py_error =
    KeyError_trans_tbl
  | KeyError_m2m_data
  | KeyError
  | AttributeError
  | IndexError
  | TypeError
  | DoesNotExist
  | IntegrityError

text \<open>
  The model classes and the database schema are not part of the views, so they are
  parameters: \<open>meta_fields\<close> is \<^verbatim>\<open>Model._meta.fields\<close> (name, attribute name and
  \<^verbatim>\<open>unique\<close> flag of each field) and \<open>violates\<close> says whether the database rejects a row,
  which is when a save raises \<^verbatim>\<open>IntegrityError\<close>.
\<close>

record orm =
  meta_fields :: "string \<Rightarrow> (string \<times> string \<times> bool) list"
  violates :: "db \<Rightarrow> string \<Rightarrow> row \<Rightarrow> bool"

type_synonym do_dict = "(string \<times> des_obj list) list"
type_synonym trans_tbl = "string \<Rightarrow> (val \<Rightarrow> int option) option"

datatype reg = RegList "int list" | RegVal val

type_synonym regist_tbl = "string \<Rightarrow> (string \<Rightarrow> (val \<Rightarrow> reg option) option) option"

definition upsert :: "db \<Rightarrow> string \<Rightarrow> row \<Rightarrow> db" where
  "upsert d model r =
     d(model := (if list_ex (\<lambda>x. pk x = pk r) (d model)
                 then map (\<lambda>x. if pk x = pk r then r else x) (d model)
                 else d model @ [r]))"

definition next_pk :: "row list \<Rightarrow> int" where
  "next_pk rows = fold (\<lambda>r n. max n (pk r + 1)) rows 1"

definition ints :: "val list \<Rightarrow> int list" where
  "ints vs = concat (map (\<lambda>v. case v of VInt n \<Rightarrow> [n] | _ \<Rightarrow> []) vs)"

text \<open>\<^verbatim>\<open>Model.save()\<close>: writes the row under its key; \<open>None\<close> is \<^verbatim>\<open>IntegrityError\<close>.\<close>

definition model_save :: "orm \<Rightarrow> db \<Rightarrow> string \<Rightarrow> row \<Rightarrow> db option" where
  "model_save P d model r = (if violates P d model r then None else Some (upsert d model r))"

text \<open>
  \<^verbatim>\<open>DeserializedObject.save()\<close>: saves \<^verbatim>\<open>obj.object\<close>, a row of its own class, under its
  key (a fresh key when it has none) and then sets every many-to-many field of
  \<^verbatim>\<open>m2m_data\<close>.
\<close>

definition des_row :: "db \<Rightarrow> string \<Rightarrow> des_obj \<Rightarrow> row" where
  "des_row d model obj =
     (let n = (case d_pk obj of VInt n \<Rightarrow> n | _ \<Rightarrow> next_pk (d model));
          old_m2m = (case find (\<lambda>r. pk r = n) (d model) of
                       Some r \<Rightarrow> m2m r
                     | None \<Rightarrow> (\<lambda>_. []))
      in \<lparr> pk = n,
           attrs = d_attrs obj,
           m2m = (\<lambda>name. case d_m2m obj name of None \<Rightarrow> old_m2m name | Some l \<Rightarrow> ints l) \<rparr>)"

definition des_save :: "orm \<Rightarrow> db \<Rightarrow> des_obj \<Rightarrow> db option" where
  "des_save P d obj = model_save P d (d_model obj) (des_row d (d_model obj) obj)"

text \<open>
  \<^verbatim>\<open>getattr(des_obj.object, field_name)\<close> for the attribute name of a field (\<^verbatim>\<open>pi_id\<close>,
  \<^verbatim>\<open>project_id\<close>, ...): an instance has the attribute when its class has a field with
  that attribute name, and \<^verbatim>\<open>AttributeError\<close> is raised otherwise.
\<close>

definition attnames :: "orm \<Rightarrow> string \<Rightarrow> string list" where
  "attnames P model = map (\<lambda>f. fst (snd f)) (meta_fields P model)"

definition getattr :: "orm \<Rightarrow> des_obj \<Rightarrow> string \<Rightarrow> py_error + val" where
  "getattr P obj field_name =
     (if field_name \<in> set (attnames P (d_model obj)) then Inr (d_attrs obj field_name)
      else Inl AttributeError)"

subsection \<open>Step 1: gathering the deserialized objects\<close>

text \<open>
  A member of the uploaded document is a string that the deserializer turns into
  objects, each of the class its own \<^verbatim>\<open>"model"\<close> entry names.  \<open>name\<close> is the first
  \<^verbatim>\<open>"model"\<close> string that the regular expression finds in the member (\<open>None\<close> when it
  finds none), and every object of the member is filed under it, whatever its class.
  A member written by the export holds objects of one class; an uploaded file need
  not.  Python dictionaries keep insertion order, and assigning to a key that is
  present keeps its place.
\<close>

definition gather :: "(string option \<times> des_obj list) list \<Rightarrow> do_dict" where
  "gather grouped_data =
     fold (\<lambda>member dd. case fst member of
                          None \<Rightarrow> dd
                        | Some name \<Rightarrow> AList.update name (snd member) dd)
       grouped_data []"

subsection \<open>Step 2: assigning primary keys\<close>

definition unique_keys :: "(string \<times> string \<times> bool) list \<Rightarrow> (string \<times> string) list" where
  "unique_keys fs =
     map (\<lambda>f. (fst f, fst (snd f)))
       (filter (\<lambda>f. snd (snd f) \<and> fst f \<noteq> ''id'') fs)"

text \<open>
  \<^verbatim>\<open>_same_obj_exists\<close>: \<open>model\<close> is the class of \<open>cur_obj\<close>, whose \<^verbatim>\<open>_meta.fields\<close> are
  read.  \<^verbatim>\<open>model_to_dict\<close> gives, under the name of an editable field, the value of its
  attribute; the unique fields are taken to be editable (for one that is not,
  \<^verbatim>\<open>cur_vals[key]\<close> would raise \<^verbatim>\<open>KeyError\<close>).
\<close>

definition same_obj_exists :: "orm \<Rightarrow> string \<Rightarrow> row \<Rightarrow> des_obj \<Rightarrow> bool" where
  "same_obj_exists P model cur_obj new_obj =
     list_ex (\<lambda>key. attrs cur_obj (snd key) = d_attrs new_obj (snd key))
       (unique_keys (meta_fields P model))"

definition duplicate_model_keys :: "string set" where
  "duplicate_model_keys = {''project.projectuser'', ''allocation.allocationuser''}"

text \<open>
  The loop over \<^verbatim>\<open>type(obj.object).objects.all()\<close>, on the state
  (\<open>abort_import\<close>, \<open>pk_translation_table[key]\<close>, \<open>new_pk\<close>).  The rows scanned are of the
  class of \<open>obj\<close>; \<open>key\<close> is the key of \<^verbatim>\<open>do_dict\<close> under which \<open>obj\<close> is filed.
\<close>

fun scan_existing ::
  "orm \<Rightarrow> string \<Rightarrow> des_obj \<Rightarrow> row list \<Rightarrow> bool \<times> (val \<Rightarrow> int option) \<times> int
     \<Rightarrow> bool \<times> (val \<Rightarrow> int option) \<times> int" where
  "scan_existing P key obj [] st = st"
| "scan_existing P key obj (cur_obj # rest) (abort_import, t, new_pk) =
     (if key \<notin> duplicate_model_keys \<and> same_obj_exists P (d_model obj) cur_obj obj
      then scan_existing P key obj rest (True, t(d_pk obj \<mapsto> pk cur_obj), new_pk)
      else scan_existing P key obj rest
             (abort_import, t, if pk cur_obj > new_pk then pk cur_obj else new_pk))"

text \<open>
  The loop over \<^verbatim>\<open>do_dict[key]\<close>; \<open>new_pk\<close> is carried from one object to the next.
  The objects are updated in place, so the result lists them in the same order.
\<close>

fun assign_objs ::
  "orm \<Rightarrow> db \<Rightarrow> string \<Rightarrow> des_obj list \<Rightarrow> (val \<Rightarrow> int option) \<Rightarrow> int
     \<Rightarrow> (val \<Rightarrow> int option) \<times> des_obj list" where
  "assign_objs P d key [] t new_pk = (t, [])"
| "assign_objs P d key (obj # objs) t new_pk =
     (case scan_existing P key obj (d (d_model obj)) (False, t, new_pk) of
        (abort_import, t1, new_pk1) \<Rightarrow>
          if abort_import
          then (case assign_objs P d key objs t1 new_pk1 of
                  (t2, objs') \<Rightarrow> (t2, obj # objs'))
          else (let new_pk2 = new_pk1 + 1 in
                case assign_objs P d key objs (t1(d_pk obj \<mapsto> new_pk2)) new_pk2 of
                  (t2, objs') \<Rightarrow> (t2, obj\<lparr>d_pk := VInt new_pk2\<rparr> # objs')))"

text \<open>The loop over the keys of \<^verbatim>\<open>do_dict\<close>: each key starts from an empty table and 0.\<close>

fun assign_keys :: "orm \<Rightarrow> db \<Rightarrow> do_dict \<Rightarrow> trans_tbl \<Rightarrow> trans_tbl \<times> do_dict" where
  "assign_keys P d [] tbl = (tbl, [])"
| "assign_keys P d (entry # rest) tbl =
     (case assign_objs P d (fst entry) (snd entry) Map.empty 0 of
        (t, objs') \<Rightarrow>
          (case assign_keys P d rest (tbl(fst entry \<mapsto> t)) of
             (tbl', rest') \<Rightarrow> (tbl', (fst entry, objs') # rest')))"

definition assign_pks :: "orm \<Rightarrow> db \<Rightarrow> do_dict \<Rightarrow> trans_tbl \<times> do_dict" where
  "assign_pks P d dd = assign_keys P d dd Map.empty"

subsection \<open>Step 3: matching fields\<close>

text \<open>The rest of a block runs when the statement before it did not raise.\<close>

definition on_success ::
  "py_error + 'a \<Rightarrow> ('a \<Rightarrow> py_error + 'b) \<Rightarrow> py_error + 'b" where
  "on_success r k = (case r of Inl err \<Rightarrow> Inl err | Inr v \<Rightarrow> k v)"

fun map_err :: "('a \<Rightarrow> 'e + 'b) \<Rightarrow> 'a list \<Rightarrow> 'e + 'b list" where
  "map_err f [] = Inr []"
| "map_err f (x # xs) =
     (case f x of
        Inl e \<Rightarrow> Inl e
      | Inr y \<Rightarrow> (case map_err f xs of Inl e \<Rightarrow> Inl e | Inr ys \<Rightarrow> Inr (y # ys)))"

text \<open>\<^verbatim>\<open>trans_tbl[from_name][index]\<close>: either subscript may raise \<^verbatim>\<open>KeyError\<close>.\<close>

definition trans_lookup :: "trans_tbl \<Rightarrow> string \<Rightarrow> val \<Rightarrow> py_error + int" where
  "trans_lookup trans_tbl from_name index =
     (case trans_tbl from_name of
        None \<Rightarrow> Inl KeyError_trans_tbl
      | Some t \<Rightarrow> (case t index of None \<Rightarrow> Inl KeyError_trans_tbl | Some v \<Rightarrow> Inr v))"

text \<open>The body of the loop of \<^verbatim>\<open>_update_field\<close>, for one object.\<close>

definition update_obj ::
  "orm \<Rightarrow> string \<Rightarrow> string \<Rightarrow> trans_tbl \<Rightarrow> des_obj \<Rightarrow> py_error + des_obj" where
  "update_obj P from_name field_name trans_tbl des_obj =
     on_success (getattr P des_obj field_name)
       (\<lambda>index.
          on_success (trans_lookup trans_tbl from_name index)
            (\<lambda>v. Inr (des_obj\<lparr>d_attrs := (d_attrs des_obj)(field_name := VInt v)\<rparr>)))"

definition update_field ::
  "orm \<Rightarrow> string \<Rightarrow> string \<Rightarrow> string \<Rightarrow> trans_tbl \<Rightarrow> do_dict \<times> regist_tbl
     \<Rightarrow> py_error + do_dict \<times> regist_tbl" where
  "update_field P to_name from_name field_name trans_tbl st =
     (case map_of (fst st) to_name of
        None \<Rightarrow> Inr st
      | Some objs \<Rightarrow>
          on_success (map_err (update_obj P from_name field_name trans_tbl) objs)
            (\<lambda>objs'. Inr (AList.update to_name objs' (fst st), snd st)))"

definition update_m2m ::
  "string \<Rightarrow> string \<Rightarrow> string \<Rightarrow> trans_tbl \<Rightarrow> do_dict \<times> regist_tbl
     \<Rightarrow> py_error + do_dict \<times> regist_tbl" where
  "update_m2m to_name from_name m2m_name trans_tbl st =
     (case map_of (fst st) to_name of
        None \<Rightarrow> Inr st
      | Some objs \<Rightarrow>
          if trans_tbl from_name = None then Inr st
          else
            on_success (map_err (\<lambda>des_obj.
                     (case d_m2m des_obj m2m_name of
                        None \<Rightarrow> Inl KeyError_m2m_data
                      | Some lns \<Rightarrow>
                          on_success (map_err (trans_lookup trans_tbl from_name) lns)
                            (\<lambda>trans. Inr (des_obj\<lparr>d_m2m :=
                                              (d_m2m des_obj)(m2m_name \<mapsto> map VInt trans)\<rparr>))))
                   objs)
              (\<lambda>objs'. Inr (AList.update to_name objs' (fst st), snd st)))"

text \<open>
  \<^verbatim>\<open>regist_tbl[from_name][name][pk] = v\<close>, after the two \<^verbatim>\<open>not in\<close> tests have put the
  empty dictionaries in place.
\<close>

definition regist_put :: "regist_tbl \<Rightarrow> string \<Rightarrow> string \<Rightarrow> val \<Rightarrow> reg \<Rightarrow> regist_tbl" where
  "regist_put regist from_name name k v =
     (let by_name = (case regist from_name of None \<Rightarrow> Map.empty | Some m \<Rightarrow> m);
          by_pk = (case by_name name of None \<Rightarrow> Map.empty | Some m \<Rightarrow> m)
      in regist(from_name \<mapsto> by_name(name \<mapsto> by_pk(k \<mapsto> v))))"

definition regist_init :: "regist_tbl \<Rightarrow> string \<Rightarrow> string \<Rightarrow> regist_tbl" where
  "regist_init regist from_name name =
     (let by_name = (case regist from_name of None \<Rightarrow> Map.empty | Some m \<Rightarrow> m);
          by_pk = (case by_name name of None \<Rightarrow> Map.empty | Some m \<Rightarrow> m)
      in regist(from_name \<mapsto> by_name(name \<mapsto> by_pk)))"

fun register_m2m_objs ::
  "string \<Rightarrow> string \<Rightarrow> trans_tbl \<Rightarrow> des_obj list \<Rightarrow> regist_tbl
     \<Rightarrow> py_error + des_obj list \<times> regist_tbl" where
  "register_m2m_objs from_name m2m_name trans_tbl [] regist = Inr ([], regist)"
| "register_m2m_objs from_name m2m_name trans_tbl (des_obj # objs) regist =
     (case d_m2m des_obj m2m_name of
        None \<Rightarrow> Inl KeyError_m2m_data
      | Some lns \<Rightarrow>
          on_success (map_err (trans_lookup trans_tbl from_name) lns)
            (\<lambda>trans.
               on_success (register_m2m_objs from_name m2m_name trans_tbl objs
                       (regist_put regist from_name m2m_name (d_pk des_obj) (RegList trans)))
                 (\<lambda>res. Inr (des_obj\<lparr>d_m2m := (d_m2m des_obj)(m2m_name \<mapsto> [])\<rparr> # fst res,
                              snd res))))"

definition register_m2m ::
  "string \<Rightarrow> string \<Rightarrow> string \<Rightarrow> trans_tbl \<Rightarrow> do_dict \<times> regist_tbl
     \<Rightarrow> py_error + do_dict \<times> regist_tbl" where
  "register_m2m to_name from_name m2m_name trans_tbl st =
     (case map_of (fst st) to_name of
        None \<Rightarrow> Inr st
      | Some objs \<Rightarrow>
          on_success (register_m2m_objs from_name m2m_name trans_tbl objs
                  (regist_init (snd st) from_name m2m_name))
            (\<lambda>res. Inr (AList.update to_name (fst res) (fst st), snd res)))"

fun register_field_objs ::
  "orm \<Rightarrow> string \<Rightarrow> string \<Rightarrow> des_obj list \<Rightarrow> regist_tbl
     \<Rightarrow> py_error + des_obj list \<times> regist_tbl" where
  "register_field_objs P from_name field_name [] regist = Inr ([], regist)"
| "register_field_objs P from_name field_name (des_obj # objs) regist =
     on_success (getattr P des_obj field_name)
       (\<lambda>trans.
          on_success (register_field_objs P from_name field_name objs
                  (regist_put regist from_name field_name (d_pk des_obj) (RegVal trans)))
            (\<lambda>res. Inr (des_obj\<lparr>d_attrs := (d_attrs des_obj)(field_name := VNone)\<rparr> # fst res,
                         snd res)))"

definition register_field ::
  "orm \<Rightarrow> string \<Rightarrow> string \<Rightarrow> string \<Rightarrow> trans_tbl \<Rightarrow> do_dict \<times> regist_tbl
     \<Rightarrow> py_error + do_dict \<times> regist_tbl" where
  "register_field P to_name from_name field_name trans_tbl st =
     (case map_of (fst st) to_name of
        None \<Rightarrow> Inr st
      | Some objs \<Rightarrow>
          on_success (register_field_objs P from_name field_name objs
                  (regist_init (snd st) from_name field_name))
            (\<lambda>res. Inr (AList.update to_name (fst res) (fst st), snd res)))"

text \<open>A sequence of calls: the first exception ends it.\<close>

fun run_steps :: "('s \<Rightarrow> py_error + 's) list \<Rightarrow> 's \<Rightarrow> py_error + 's" where
  "run_steps [] st = Inr st"
| "run_steps (f # fs) st = (case f st of Inl e \<Rightarrow> Inl e | Inr st' \<Rightarrow> run_steps fs st')"

text \<open>
  Step 3 is a fixed sequence of calls of the four helpers.  A call is recorded with
  its arguments \<open>to_name\<close>, \<open>from_name\<close> and the field or many-to-many name;
  \<^verbatim>\<open>_batch_update_field\<close> is one \<^verbatim>\<open>_update_field\<close> call for each name of its list.
\<close>

datatype call =
    UpdateField string string string
  | RegisterField string string string
  | RegisterM2M string string string
  | UpdateM2M string string string

fun run_call ::
  "orm \<Rightarrow> trans_tbl \<Rightarrow> call \<Rightarrow> do_dict \<times> regist_tbl \<Rightarrow> py_error + do_dict \<times> regist_tbl" where
  "run_call P tbl (UpdateField to_name from_name field_name) =
     update_field P to_name from_name field_name tbl"
| "run_call P tbl (RegisterField to_name from_name field_name) =
     register_field P to_name from_name field_name tbl"
| "run_call P tbl (RegisterM2M to_name from_name m2m_name) =
     register_m2m to_name from_name m2m_name tbl"
| "run_call P tbl (UpdateM2M to_name from_name m2m_name) =
     update_m2m to_name from_name m2m_name tbl"

definition batch_update_field :: "string list \<Rightarrow> string \<Rightarrow> string \<Rightarrow> call list" where
  "batch_update_field to_names from_name field_name =
     map (\<lambda>to_name. UpdateField to_name from_name field_name) to_names"

definition match_calls :: "call list" where
  "match_calls =
     [ UpdateField ''project.project'' ''auth.user'' ''pi_id'',
       RegisterField ''resource.resource'' ''resource.resource'' ''parent_resource_id'',
       RegisterM2M ''resource.resource'' ''resource.resource'' ''linked_resources'',
       UpdateM2M ''auth.user'' ''auth.group'' ''groups'',
       UpdateField ''user.userprofile'' ''auth.user'' ''user_id'',
       UpdateM2M ''resource.resource'' ''auth.user'' ''allowed_users'',
       UpdateM2M ''resource.resource'' ''auth.group'' ''allowed_groups'',
       UpdateM2M ''allocation.allocation'' ''resource.resource'' ''resources'',
       UpdateField ''allocation.allocationuser'' ''auth.user'' ''user_id'',
       UpdateField ''allocation.allocationuser'' ''allocation.allocation'' ''allocation_id'' ]
     @ batch_update_field
         [ ''allocation.allocationchangerequest'', ''allocation.allocationattribute'',
           ''allocation.allocationadminnote'', ''allocation.allocationusernote'' ]
         ''allocation.allocation'' ''allocation_id''
     @ batch_update_field
         [ ''allocation.allocationadminnote'', ''allocation.allocationusernote'' ]
         ''auth.user'' ''author_id''
     @ batch_update_field
         [ ''project.projectuser'', ''allocation.allocation'', ''publication.publication'',
           ''grant.grant'', ''project.projectadmincomment'', ''project.projectusermessage'',
           ''project.projectreview'', ''research_output.researchoutput'' ]
         ''project.project'' ''project_id''"

definition run_calls ::
  "orm \<Rightarrow> trans_tbl \<Rightarrow> call list \<Rightarrow> do_dict \<times> regist_tbl
     \<Rightarrow> py_error + do_dict \<times> regist_tbl" where
  "run_calls P tbl calls st = run_steps (map (run_call P tbl) calls) st"

definition match_fields ::
  "orm \<Rightarrow> trans_tbl \<Rightarrow> do_dict \<Rightarrow> py_error + do_dict \<times> regist_tbl" where
  "match_fields P pk_translation_table dd =
     run_calls P pk_translation_table match_calls (dd, Map.empty)"

subsection \<open>Step 4: saving\<close>

text \<open>
  The elements of \<^verbatim>\<open>do_dict\<close> are \<^verbatim>\<open>DeserializedObject\<close>s (the code reads their
  \<^verbatim>\<open>.object\<close> and \<^verbatim>\<open>.m2m_data\<close>); the model instance is the wrapped \<^verbatim>\<open>obj.object\<close>.
  \<^verbatim>\<open>isinstance\<close> tests the class of the value it is given.
\<close>

datatype py_obj = DeserializedObject des_obj | ModelInstance string des_obj

fun isinstance :: "py_obj \<Rightarrow> string \<Rightarrow> bool" where
  "isinstance (DeserializedObject obj) cls = (cls = ''DeserializedObject'')"
| "isinstance (ModelInstance label obj) cls = (cls = label)"

type_synonym save_log = "(string \<times> des_obj) list"

text \<open>
  The save pass, on the state (database, \<open>resave_proj\<close>, the list of the calls of
  \<^verbatim>\<open>save\<close> made so far).
\<close>

fun save_objs ::
  "orm \<Rightarrow> string \<Rightarrow> des_obj list \<Rightarrow> db \<times> bool \<times> save_log \<Rightarrow> db \<times> bool \<times> save_log" where
  "save_objs P key [] st = st"
| "save_objs P key (obj # objs) (d, resave_proj, saves) =
     (case des_save P d obj of
        Some d' \<Rightarrow> save_objs P key objs (d', resave_proj, saves @ [(key, obj)])
      | None \<Rightarrow>
          save_objs P key objs
            (d,
             if isinstance (DeserializedObject obj) ''project.project'' then True
             else resave_proj,
             saves @ [(key, obj)]))"

fun save_all :: "orm \<Rightarrow> do_dict \<Rightarrow> db \<times> bool \<times> save_log \<Rightarrow> db \<times> bool \<times> save_log" where
  "save_all P [] st = st"
| "save_all P (entry # rest) st = save_all P rest (save_objs P (fst entry) (snd entry) st)"

definition add_link :: "db \<Rightarrow> string \<Rightarrow> int \<Rightarrow> string \<Rightarrow> int \<Rightarrow> db" where
  "add_link d model obj_pk name k =
     d(model := map (\<lambda>r. if pk r = obj_pk
                          then r\<lparr>m2m := (m2m r)(name := (if k \<in> set (m2m r name) then m2m r name
                                                         else m2m r name @ [k]))\<rparr>
                          else r)
                  (d model))"

fun add_links :: "db \<Rightarrow> string \<Rightarrow> int \<Rightarrow> string \<Rightarrow> int list \<Rightarrow> py_error + db" where
  "add_links d model obj_pk m2m_name [] = Inr d"
| "add_links d model obj_pk m2m_name (i # is) =
     (case find (\<lambda>r. pk r = i) (d model) of
        None \<Rightarrow> Inl IndexError
      | Some target \<Rightarrow> add_links (add_link d model obj_pk m2m_name (pk target)) model obj_pk m2m_name is)"

text \<open>
  \<^verbatim>\<open>_reassign_m2m\<close> and \<^verbatim>\<open>_reassign_field\<close>, with the parameters named as in their
  definitions (the calls pass \<^verbatim>\<open>do_dict\<close> as \<open>regist_tbl\<close> and \<^verbatim>\<open>do_regist_tbl\<close> as
  \<open>trans_tbl\<close>).
\<close>

definition reassign_m2m ::
  "string \<Rightarrow> row list \<Rightarrow> string \<Rightarrow> do_dict \<Rightarrow> regist_tbl \<Rightarrow> db \<Rightarrow> py_error + db" where
  "reassign_m2m name query m2m_name regist_tbl trans_tbl d =
     (if map_of regist_tbl name = None then Inr d
      else run_steps
             (map (\<lambda>obj d'.
                     case trans_tbl name of
                       None \<Rightarrow> Inl KeyError
                     | Some by_name \<Rightarrow>
                        (case by_name m2m_name of
                           None \<Rightarrow> Inl KeyError
                         | Some by_pk \<Rightarrow>
                            (case by_pk (VInt (pk obj)) of
                               None \<Rightarrow> Inr d'
                             | Some (RegList is) \<Rightarrow> add_links d' name (pk obj) m2m_name is
                             | Some (RegVal v) \<Rightarrow> Inl TypeError)))
                query)
             d)"

definition reassign_field ::
  "orm \<Rightarrow> string \<Rightarrow> row list \<Rightarrow> string \<Rightarrow> do_dict \<Rightarrow> regist_tbl \<Rightarrow> db \<Rightarrow> py_error + db" where
  "reassign_field P name query field_name regist_tbl trans_tbl d =
     (if map_of regist_tbl name = None then Inr d
      else run_steps
             (map (\<lambda>obj d'.
                     case trans_tbl name of
                       None \<Rightarrow> Inl KeyError
                     | Some by_name \<Rightarrow>
                        (case by_name field_name of
                           None \<Rightarrow> Inl KeyError
                         | Some by_pk \<Rightarrow>
                            (case by_pk (VInt (pk obj)) of
                               None \<Rightarrow> Inr d'
                             | Some x \<Rightarrow>
                                (let v = (case x of RegVal v \<Rightarrow> v | RegList is \<Rightarrow> VNone) in
                                 if violates P d' name (obj\<lparr>attrs := (attrs obj)(field_name := v)\<rparr>)
                                 then Inl IntegrityError
                                 else Inr (d'(name :=
                                        map (\<lambda>r. if pk r = pk obj
                                                  then r\<lparr>attrs := (attrs r)(field_name := v)\<rparr>
                                                  else r)
                                          (d' name)))))))
                query)
             d)"

subsection \<open>\<^verbatim>\<open>ProjectImportView.post\<close>\<close>

datatype upload =
    JSONDecodeError_raised
  | UnicodeDecodeError_raised
  | Loaded "(string option \<times> des_obj list) list"

record outcome =
  o_db :: db
  o_messages :: "string list"
  o_response :: response
  o_saves :: save_log

text \<open>\<^verbatim>\<open>obj.object.save()\<close> on the wrapped instance writes its columns, not \<^verbatim>\<open>m2m_data\<close>.\<close>

definition object_row :: "db \<Rightarrow> des_obj \<Rightarrow> row" where
  "object_row d obj = des_row d (d_model obj) (obj\<lparr>d_m2m := Map.empty\<rparr>)"

definition import_tail ::
  "orm \<Rightarrow> db \<Rightarrow> do_dict \<Rightarrow> regist_tbl \<Rightarrow> py_error + outcome" where
  "import_tail P d dd do_regist_tbl =
     (case save_all P dd (d, False, []) of
        (d1, resave_proj, saves) \<Rightarrow>
          on_success (reassign_m2m ''resource.resource'' (d1 ''resource.resource'')
                  ''linked_resources'' dd do_regist_tbl d1)
            (\<lambda>d2.
               on_success (reassign_field P ''resource.resource'' (d2 ''resource.resource'')
                       ''parent_resource_id'' dd do_regist_tbl d2)
                 (\<lambda>d3.
                    if resave_proj
                    then (case map_of dd ''project.project'' of
                            None \<Rightarrow> Inl KeyError
                          | Some [] \<Rightarrow> Inl IndexError
                          | Some (obj # objs) \<Rightarrow>
                              (case model_save P d3 (d_model obj) (object_row d3 obj) of
                                 None \<Rightarrow> Inl IntegrityError
                               | Some d4 \<Rightarrow>
                                   Inr \<lparr> o_db = d4, o_messages = [],
                                         o_response = HttpResponseRedirect ''project-list'' None,
                                         o_saves = saves @ [(''project.project'', obj)] \<rparr>))
                    else Inr \<lparr> o_db = d3, o_messages = [],
                               o_response = HttpResponseRedirect ''project-list'' None,
                               o_saves = saves \<rparr>)))"

definition import_post :: "orm \<Rightarrow> db \<Rightarrow> bool \<Rightarrow> upload \<Rightarrow> py_error + outcome" where
  "import_post P d form_is_valid file_upload =
     (if form_is_valid
      then (case file_upload of
              JSONDecodeError_raised \<Rightarrow>
                Inr \<lparr> o_db = d,
                      o_messages =
                        [''JSON Decode Error: The project file you have selected is corrupted ''
                         @ ''or is in a format ColdFront does not recognise.''],
                      o_response = HttpResponseRedirect ''project-list'' None,
                      o_saves = [] \<rparr>
            | UnicodeDecodeError_raised \<Rightarrow>
                Inr \<lparr> o_db = d,
                      o_messages = [''Unicode Decode Error: Please upload a JSON document.''],
                      o_response = HttpResponseRedirect ''project-list'' None,
                      o_saves = [] \<rparr>
            | Loaded grouped_data \<Rightarrow>
                (case assign_pks P d (gather grouped_data) of
                   (pk_translation_table, dd) \<Rightarrow>
                     on_success (match_fields P pk_translation_table dd)
                       (\<lambda>st. import_tail P d (fst st) (snd st))))
      else Inr \<lparr> o_db = d, o_messages = [],
                 o_response = HttpResponseRedirect ''project-list'' None,
                 o_saves = [] \<rparr>)"


subsection \<open>Concrete rows and database states\<close>

definition mk_row :: "int \<Rightarrow> (string \<times> val) list \<Rightarrow> (string \<times> int list) list \<Rightarrow> row" where
  "mk_row k as ms =
     \<lparr> pk = k,
       attrs = (\<lambda>a. case map_of as a of None \<Rightarrow> VNone | Some v \<Rightarrow> v),
       m2m = (\<lambda>n. case map_of ms n of None \<Rightarrow> [] | Some l \<Rightarrow> l) \<rparr>"

definition mk_db :: "(string \<times> row list) list \<Rightarrow> db" where
  "mk_db tabs = (\<lambda>model. case map_of tabs model of None \<Rightarrow> [] | Some rs \<Rightarrow> rs)"

text \<open>
  A project with one allocation on resource 2, whose parent is resource 1; resource 3
  is a child of resource 2.
\<close>

definition parent_db :: db where
  "parent_db = mk_db
     [ (''project.projectstatuschoice'', [mk_row 1 [(''name'', VStr ''Active'')] []]),
       (''project.project'', [mk_row 1 [(''pi_id'', VInt 1), (''status_id'', VInt 1)] []]),
       (''allocation.allocation'',
          [mk_row 1 [(''project_id'', VInt 1)] [(''resources'', [2])]]),
       (''resource.resource'',
          [ mk_row 1 [] [],
            mk_row 2 [(''parent_resource_id'', VInt 1)] [],
            mk_row 3 [(''parent_resource_id'', VInt 2)] [] ]) ]"

text \<open>
  The same project in a database with two users: user 1 is its PI, and user 9 is
  neither a superuser, nor its PI, nor one of its project users.
\<close>

definition outsider :: row where
  "outsider = mk_row 9 [(''username'', VStr ''mallory''), (''is_superuser'', VBool False)] []"

definition export_db :: db where
  "export_db = mk_db
     [ (''auth.user'',
          [ mk_row 1 [(''username'', VStr ''alice''), (''is_superuser'', VBool False)] [],
            outsider ]),
       (''project.projectstatuschoice'', [mk_row 1 [(''name'', VStr ''Active'')] []]),
       (''project.project'', [mk_row 1 [(''pi_id'', VInt 1), (''status_id'', VInt 1)] []]),
       (''allocation.allocation'',
          [mk_row 1 [(''project_id'', VInt 1)] [(''resources'', [2])]]),
       (''resource.resource'',
          [ mk_row 1 [] [],
            mk_row 2 [(''parent_resource_id'', VInt 1)] [],
            mk_row 3 [(''parent_resource_id'', VInt 2)] [] ]) ]"

definition mk_obj ::
  "string \<Rightarrow> val \<Rightarrow> (string \<times> val) list \<Rightarrow> (string \<times> val list) list \<Rightarrow> des_obj" where
  "mk_obj model k as ms =
     \<lparr> d_model = model,
       d_pk = k,
       d_attrs = (\<lambda>a. case map_of as a of None \<Rightarrow> VNone | Some v \<Rightarrow> v),
       d_m2m = map_of ms \<rparr>"

definition empty_db :: db where
  "empty_db = (\<lambda>model. [])"

text \<open>
  The fields of the models that the examples use: name, attribute name and
  \<^verbatim>\<open>unique\<close> flag.  User names, group names and resource names are unique, and a user
  has one profile.
\<close>

definition example_fields :: "string \<Rightarrow> (string \<times> string \<times> bool) list" where
  "example_fields model =
     (if model = ''auth.user''
      then [(''id'', ''id'', True), (''username'', ''username'', True)]
      else if model = ''auth.group''
      then [(''id'', ''id'', True), (''name'', ''name'', True)]
      else if model = ''user.userprofile''
      then [(''id'', ''id'', True), (''user'', ''user_id'', True)]
      else if model = ''project.project''
      then [(''id'', ''id'', True), (''title'', ''title'', False), (''pi'', ''pi_id'', False),
            (''status'', ''status_id'', False)]
      else if model = ''project.projectuser''
      then [(''id'', ''id'', True), (''user'', ''user_id'', False),
            (''project'', ''project_id'', False)]
      else if model = ''resource.resource''
      then [(''id'', ''id'', True), (''parent_resource'', ''parent_resource_id'', False),
            (''name'', ''name'', True)]
      else if model = ''grant.grant''
      then [(''id'', ''id'', True), (''project'', ''project_id'', False),
            (''title'', ''title'', False)]
      else [(''id'', ''id'', True)])"

text \<open>
  A schema in which a project's PI must exist: the database rejects a project row
  whose \<^verbatim>\<open>pi_id\<close> is not the key of a user.
\<close>

definition fk_orm :: orm where
  "fk_orm =
     \<lparr> meta_fields = example_fields,
       violates = (\<lambda>d model r. model = ''project.project''
                      \<and> \<not> list_ex (\<lambda>u. VInt (pk u) = attrs r ''pi_id'') (d ''auth.user'')) \<rparr>"


text \<open>
  A document in the order the export writes it: the project first, then its PI.
\<close>

definition project_first_doc :: "(string option \<times> des_obj list) list" where
  "project_first_doc =
     [ (Some ''project.project'', [mk_obj ''project.project'' (VInt 1) [(''pi_id'', VInt 1)] []]),
       (Some ''auth.user'',
          [mk_obj ''auth.user'' (VInt 1) [(''username'', VStr ''alice'')] [(''groups'', [])]]) ]"

subsection \<open>Columns of the deserialized objects\<close>

definition resource_ids :: "db \<Rightarrow> int set" where
  "resource_ids d = set (map pk (d ''resource.resource''))"

text \<open>
  The values of one field, of one many-to-many list and of the key over the objects
  filed under a key of \<^verbatim>\<open>do_dict\<close>, in their order.
\<close>

definition attr_col :: "do_dict \<Rightarrow> string \<Rightarrow> string \<Rightarrow> val list option" where
  "attr_col dd key field_name = map_option (map (\<lambda>obj. d_attrs obj field_name)) (map_of dd key)"

definition m2m_col :: "do_dict \<Rightarrow> string \<Rightarrow> string \<Rightarrow> val list option list option" where
  "m2m_col dd key m2m_name = map_option (map (\<lambda>obj. d_m2m obj m2m_name)) (map_of dd key)"

definition pk_col :: "do_dict \<Rightarrow> string \<Rightarrow> val list option" where
  "pk_col dd key = map_option (map d_pk) (map_of dd key)"

fun writes_attr :: "call \<Rightarrow> string \<Rightarrow> string \<Rightarrow> bool" where
  "writes_attr (UpdateField t fr f) key field_name = (t = key \<and> f = field_name)"
| "writes_attr (RegisterField t fr f) key field_name = (t = key \<and> f = field_name)"
| "writes_attr (RegisterM2M t fr n) key field_name = False"
| "writes_attr (UpdateM2M t fr n) key field_name = False"

fun writes_m2m :: "call \<Rightarrow> string \<Rightarrow> string \<Rightarrow> bool" where
  "writes_m2m (UpdateField t fr f) key m2m_name = False"
| "writes_m2m (RegisterField t fr f) key m2m_name = False"
| "writes_m2m (RegisterM2M t fr n) key m2m_name = (t = key \<and> n = m2m_name)"
| "writes_m2m (UpdateM2M t fr n) key m2m_name = (t = key \<and> n = m2m_name)"

definition translate_m2m :: "trans_tbl \<Rightarrow> string \<Rightarrow> val list option \<Rightarrow> py_error + int list" where
  "translate_m2m tbl from_name entry =
     (case entry of None \<Rightarrow> Inl KeyError_m2m_data
      | Some lns \<Rightarrow> map_err (trans_lookup tbl from_name) lns)"

text \<open>
  The foreign-key fields that the claim C3 lists, as (\<open>to_name\<close>, \<open>from_name\<close>, field),
  and the lists passed to \<^verbatim>\<open>_update_m2m\<close>.
\<close>

definition fk_fields :: "(string \<times> string \<times> string) list" where
  "fk_fields =
     [ (''project.project'', ''auth.user'', ''pi_id''),
       (''user.userprofile'', ''auth.user'', ''user_id''),
       (''allocation.allocationuser'', ''auth.user'', ''user_id''),
       (''allocation.allocationuser'', ''allocation.allocation'', ''allocation_id''),
       (''allocation.allocationchangerequest'', ''allocation.allocation'', ''allocation_id''),
       (''allocation.allocationattribute'', ''allocation.allocation'', ''allocation_id''),
       (''allocation.allocationadminnote'', ''allocation.allocation'', ''allocation_id''),
       (''allocation.allocationusernote'', ''allocation.allocation'', ''allocation_id''),
       (''allocation.allocationadminnote'', ''auth.user'', ''author_id''),
       (''allocation.allocationusernote'', ''auth.user'', ''author_id''),
       (''project.projectuser'', ''project.project'', ''project_id''),
       (''allocation.allocation'', ''project.project'', ''project_id''),
       (''publication.publication'', ''project.project'', ''project_id''),
       (''grant.grant'', ''project.project'', ''project_id''),
       (''project.projectadmincomment'', ''project.project'', ''project_id''),
       (''project.projectusermessage'', ''project.project'', ''project_id''),
       (''project.projectreview'', ''project.project'', ''project_id''),
       (''research_output.researchoutput'', ''project.project'', ''project_id'') ]"

definition m2m_fields :: "(string \<times> string \<times> string) list" where
  "m2m_fields =
     [ (''auth.user'', ''auth.group'', ''groups''),
       (''resource.resource'', ''auth.user'', ''allowed_users''),
       (''resource.resource'', ''auth.group'', ''allowed_groups''),
       (''allocation.allocation'', ''resource.resource'', ''resources'') ]"

text \<open>
  A project with imported key 5, its PI (user 7, in group 3), two resources linked to
  each other, and a member whose first object is a resource type and whose second
  object is a grant of project 5.  No group is in the document.
\<close>

definition m2m_doc :: "(string option \<times> des_obj list) list" where
  "m2m_doc =
     [ (Some ''project.project'', [mk_obj ''project.project'' (VInt 5) [(''pi_id'', VInt 7)] []]),
       (Some ''auth.user'',
          [mk_obj ''auth.user'' (VInt 7) [(''username'', VStr ''alice'')]
             [(''groups'', [VInt 3])]]),
       (Some ''resource.resource'',
          [ mk_obj ''resource.resource'' (VInt 1) [(''name'', VStr ''a'')]
              [(''linked_resources'', [VInt 2]), (''allowed_users'', [VInt 7]),
               (''allowed_groups'', [])],
            mk_obj ''resource.resource'' (VInt 2) [(''name'', VStr ''b'')]
              [(''linked_resources'', [VInt 1]), (''allowed_users'', []),
               (''allowed_groups'', [])] ]),
       (Some ''resource.resourcetype'',
          [ mk_obj ''resource.resourcetype'' (VInt 1) [(''name'', VStr ''Cluster'')] [],
            mk_obj ''grant.grant'' (VInt 4) [(''project_id'', VInt 5)] [] ]) ]"

text \<open>A project, its PI (in group 3) and two resources; no group is in the document.\<close>

definition match_doc :: "(string option \<times> des_obj list) list" where
  "match_doc =
     [ (Some ''project.project'', [mk_obj ''project.project'' (VInt 1) [(''pi_id'', VInt 7)] []]),
       (Some ''auth.user'',
          [mk_obj ''auth.user'' (VInt 7) [(''username'', VStr ''alice'')]
             [(''groups'', [VInt 3])]]),
       (Some ''resource.resource'',
          [ mk_obj ''resource.resource'' (VInt 1) [(''name'', VStr ''a'')]
              [(''linked_resources'', [VInt 2]), (''allowed_users'', [VInt 7]),
               (''allowed_groups'', [])],
            mk_obj ''resource.resource'' (VInt 2) [(''name'', VStr ''b'')]
              [(''linked_resources'', [VInt 1]), (''allowed_users'', []),
               (''allowed_groups'', [])] ]) ]"

definition match_assigned :: "trans_tbl \<times> do_dict" where
  "match_assigned = assign_pks fk_orm empty_db (gather match_doc)"

definition match_matched :: "do_dict \<times> regist_tbl" where
  "match_matched =
     (case match_fields fk_orm (fst match_assigned) (snd match_assigned) of
        Inr r \<Rightarrow> r
      | Inl e \<Rightarrow> ([], Map.empty))"

subsection \<open>Deduplication\<close>

text \<open>
  An object filed under \<open>key\<close> is deduplicated when the scan of the rows of its class
  sets \<open>abort_import\<close>.
\<close>

definition deduplicated :: "orm \<Rightarrow> db \<Rightarrow> string \<Rightarrow> des_obj \<Rightarrow> bool" where
  "deduplicated P d key obj =
     (key \<notin> duplicate_model_keys
      \<and> list_ex (\<lambda>cur_obj. same_obj_exists P (d_model obj) cur_obj obj) (d (d_model obj)))"


text \<open>Two grants with the same imported primary key.\<close>

definition same_pk_objs :: "des_obj list" where
  "same_pk_objs =
     [ mk_obj ''grant.grant'' (VInt 5) [(''title'', VStr ''a'')] [],
       mk_obj ''grant.grant'' (VInt 5) [(''title'', VStr ''b'')] [] ]"

definition same_pk_doc :: "(string option \<times> des_obj list) list" where
  "same_pk_doc = [(Some ''grant.grant'', same_pk_objs)]"

definition same_pk_assigned :: "trans_tbl \<times> do_dict" where
  "same_pk_assigned = assign_pks fk_orm empty_db (gather same_pk_doc)"

text \<open>
  A database with the user alice under key 1.  In \<open>mixed_doc\<close> the first member holds
  a group and then the user bob, so bob is filed under \<^verbatim>\<open>auth.group\<close>; the second
  member holds the users carl and dave, both with the imported key 9.
\<close>

definition alice_db :: db where
  "alice_db = mk_db [(''auth.user'', [mk_row 1 [(''username'', VStr ''alice'')] []])]"

definition mixed_doc :: "(string option \<times> des_obj list) list" where
  "mixed_doc =
     [ (Some ''auth.group'',
          [ mk_obj ''auth.group'' (VInt 1) [(''name'', VStr ''staff'')] [],
            mk_obj ''auth.user'' (VInt 8) [(''username'', VStr ''bob'')] [(''groups'', [])] ]),
       (Some ''auth.user'',
          [ mk_obj ''auth.user'' (VInt 9) [(''username'', VStr ''carl'')] [(''groups'', [])],
            mk_obj ''auth.user'' (VInt 9) [(''username'', VStr ''dave'')] [(''groups'', [])] ]) ]"












subsection \<open>The values that Step 3 looks up\<close>

text \<open>
  The precondition of C6 on the document as Step 1 gathers it: every value that a call
  of Step 3 looks up in the translation table is the imported primary key of an object
  filed under \<open>from_name\<close>.  \<^verbatim>\<open>_update_field\<close> looks up the foreign key of every
  object filed under \<open>to_name\<close>; \<^verbatim>\<open>_register_m2m\<close> looks up every element of their
  many-to-many lists, and so does \<^verbatim>\<open>_update_m2m\<close> unless \<open>from_name\<close> is not a key of
  \<^verbatim>\<open>do_dict\<close>, when it returns at once; \<^verbatim>\<open>_register_field\<close> looks up nothing.
\<close>

definition refers :: "do_dict \<Rightarrow> string \<Rightarrow> val \<Rightarrow> bool" where
  "refers dd from_name v =
     (case map_of dd from_name of None \<Rightarrow> False | Some src \<Rightarrow> v \<in> set (map d_pk src))"

definition m2m_refers :: "do_dict \<Rightarrow> string \<Rightarrow> string \<Rightarrow> des_obj list \<Rightarrow> bool" where
  "m2m_refers dd from_name m2m_name objs =
     list_all (\<lambda>obj. case d_m2m obj m2m_name of
                       None \<Rightarrow> True
                     | Some lns \<Rightarrow> list_all (refers dd from_name) lns) objs"

fun call_refs_ok :: "do_dict \<Rightarrow> call \<Rightarrow> bool" where
  "call_refs_ok dd (UpdateField t fr f) =
     (case map_of dd t of
        None \<Rightarrow> True
      | Some objs \<Rightarrow> list_all (\<lambda>obj. refers dd fr (d_attrs obj f)) objs)"
| "call_refs_ok dd (RegisterField t fr f) = True"
| "call_refs_ok dd (RegisterM2M t fr n) =
     (case map_of dd t of None \<Rightarrow> True | Some objs \<Rightarrow> m2m_refers dd fr n objs)"
| "call_refs_ok dd (UpdateM2M t fr n) =
     (case map_of dd t of
        None \<Rightarrow> True
      | Some objs \<Rightarrow> if map_of dd fr = None then True else m2m_refers dd fr n objs)"

definition refs_resolve :: "do_dict \<Rightarrow> bool" where
  "refs_resolve dd = list_all (call_refs_ok dd) match_calls"

text \<open>
  The same on the state in which a call runs: the values it looks up are in the
  translation table.
\<close>

definition found :: "trans_tbl \<Rightarrow> string \<Rightarrow> val \<Rightarrow> bool" where
  "found tbl from_name v = (case trans_lookup tbl from_name v of Inl e \<Rightarrow> False | Inr m \<Rightarrow> True)"

definition m2m_found :: "trans_tbl \<Rightarrow> string \<Rightarrow> val list option list \<Rightarrow> bool" where
  "m2m_found tbl from_name col =
     list_all (\<lambda>e. case e of None \<Rightarrow> True | Some lns \<Rightarrow> list_all (found tbl from_name) lns) col"

fun lookups_ok :: "trans_tbl \<Rightarrow> do_dict \<Rightarrow> call \<Rightarrow> bool" where
  "lookups_ok tbl dd (UpdateField t fr f) =
     (case attr_col dd t f of None \<Rightarrow> True | Some col \<Rightarrow> list_all (found tbl fr) col)"
| "lookups_ok tbl dd (RegisterField t fr f) = True"
| "lookups_ok tbl dd (RegisterM2M t fr n) =
     (case m2m_col dd t n of None \<Rightarrow> True | Some col \<Rightarrow> m2m_found tbl fr col)"
| "lookups_ok tbl dd (UpdateM2M t fr n) =
     (case m2m_col dd t n of
        None \<Rightarrow> True
      | Some col \<Rightarrow> if tbl fr = None then True else m2m_found tbl fr col)"

text \<open>
  A call interferes with a later one when it writes the column that the later one
  reads; \<open>independent\<close> says that no call of a list interferes with a later one.
\<close>

fun interferes :: "call \<Rightarrow> call \<Rightarrow> bool" where
  "interferes c (UpdateField t fr f) = writes_attr c t f"
| "interferes c (RegisterField t fr f) = False"
| "interferes c (RegisterM2M t fr n) = writes_m2m c t n"
| "interferes c (UpdateM2M t fr n) = writes_m2m c t n"

fun independent :: "call list \<Rightarrow> bool" where
  "independent [] = True"
| "independent (c # cs) = (list_all (\<lambda>c'. \<not> interferes c c') cs \<and> independent cs)"

text \<open>
  The precondition in the words of the claim C6: every foreign-key and many-to-many
  reference of an object (a value that is not \<^verbatim>\<open>None\<close>) is the imported primary key
  of an object of the referenced model in the document.
\<close>

definition objects_of :: "do_dict \<Rightarrow> string \<Rightarrow> des_obj list" where
  "objects_of dd model = filter (\<lambda>obj. d_model obj = model) (concat (map snd dd))"

definition refers_model :: "do_dict \<Rightarrow> string \<Rightarrow> val \<Rightarrow> bool" where
  "refers_model dd model v = (v \<in> set (map d_pk (objects_of dd model)))"

definition refs_by_model :: "do_dict \<Rightarrow> bool" where
  "refs_by_model dd =
     list_all (\<lambda>obj.
        list_all (\<lambda>x. if d_model obj = fst x \<and> d_attrs obj (snd (snd x)) \<noteq> VNone
                       then refers_model dd (fst (snd x)) (d_attrs obj (snd (snd x)))
                       else True) fk_fields
        \<and> list_all (\<lambda>x. if d_model obj = fst x
                          then (case d_m2m obj (snd (snd x)) of
                                  None \<Rightarrow> True
                                | Some lns \<Rightarrow> list_all (refers_model dd (fst (snd x))) lns)
                          else True)
              (m2m_fields @ [(''resource.resource'', ''resource.resource'', ''linked_resources'')]))
       (concat (map snd dd))"

text \<open>
  In \<open>pi_filed_doc\<close> the PI of the project is the user bob, who is in the document but
  is filed under \<^verbatim>\<open>auth.group\<close>, the first model name of his member.  In \<open>null_pi_doc\<close>
  the project has no PI.
\<close>

definition pi_filed_doc :: "(string option \<times> des_obj list) list" where
  "pi_filed_doc =
     [ (Some ''auth.group'',
          [ mk_obj ''auth.group'' (VInt 1) [(''name'', VStr ''staff'')] [],
            mk_obj ''auth.user'' (VInt 8) [(''username'', VStr ''bob'')]
              [(''groups'', [VInt 1])] ]),
       (Some ''project.project'',
          [mk_obj ''project.project'' (VInt 1) [(''pi_id'', VInt 8)] []]) ]"

definition null_pi_doc :: "(string option \<times> des_obj list) list" where
  "null_pi_doc =
     [ (Some ''project.project'',
          [mk_obj ''project.project'' (VInt 1) [(''pi_id'', VNone)] []]),
       (Some ''auth.user'',
          [mk_obj ''auth.user'' (VInt 8) [(''username'', VStr ''bob'')] [(''groups'', [])]]) ]"

section \<open>Results\<close>

subsection \<open>Export permission test\<close>

text \<open>
  C10.  On the database \<open>export_db\<close> the user \<open>outsider\<close> is not a superuser, is not
  the PI of project 1 and is not one of its project users, and \<^verbatim>\<open>test_func\<close> returns
  \<^verbatim>\<open>None\<close> for that user: the test does not grant access.  The view nevertheless
  answers the request of that user with the export of project 1, because its
  \<^verbatim>\<open>dispatch\<close> never reaches the mixin that calls \<^verbatim>\<open>test_func\<close>.
\<close>

theorem export_served_without_test:
  "test_func export_db outsider 1 = Inr None
   \<and> (case export_view export_db outsider 1 of
         Some (Inr (msgs, JsonResponse serialized_data)) \<Rightarrow>
           msgs = []
           \<and> map (map pk) serialized_data
               = [[1], [], [], [], [], [], [], [2, 3], [1], [], [], [], [], [], [], [], [], []]
       | _ \<Rightarrow> False)"
  by code_simp

subsection \<open>Termination of the resource closure\<close>

lemma for_body_mono: "fst st \<subseteq> fst (for_body d r st)"
  by (auto simp: for_body_def Let_def)

lemma for_body_bound: "fst (for_body d r st) \<subseteq> fst st \<union> resource_ids d"
  by (auto simp: for_body_def Let_def resource_ids_def linked_ids_def filter_parent_in_def)

lemma for_loop_mono: "fst st \<subseteq> fst (for_loop d rq st)"
  unfolding for_loop_def
proof (induction rq arbitrary: st)
  case Nil
  show ?case by simp
next
  case (Cons r rq)
  have "fst st \<subseteq> fst (for_body d r st)" by (rule for_body_mono)
  also have "\<dots> \<subseteq> fst (fold (for_body d) rq (for_body d r st))" by (rule Cons.IH)
  finally show ?case by simp
qed

lemma for_loop_bound: "fst (for_loop d rq st) \<subseteq> fst st \<union> resource_ids d"
  unfolding for_loop_def
proof (induction rq arbitrary: st)
  case Nil
  show ?case by simp
next
  case (Cons r rq)
  have "fst (fold (for_body d) rq (for_body d r st)) \<subseteq> fst (for_body d r st) \<union> resource_ids d"
    by (rule Cons.IH)
  also have "\<dots> \<subseteq> fst st \<union> resource_ids d"
    using for_body_bound [of d r st] by blast
  finally show ?case by simp
qed

text \<open>
  The measure is the number of resource keys not yet in \<open>all_ids\<close>: an iteration that
  changes \<open>all_ids\<close> adds a key of an existing resource, and one that does not is the
  last.
\<close>

lemma while_loop_returns: "\<exists>q. while_loop d old_resource_set all_ids resource_query = Some q"
proof (induction "card (resource_ids d - all_ids)"
         arbitrary: old_resource_set all_ids resource_query rule: less_induct)
  case less
  show ?case
  proof (cases "old_resource_set = all_ids")
    case True
    then show ?thesis by (simp add: while_loop.simps)
  next
    case False
    obtain all_ids' resource_query'
      where step: "for_loop d resource_query (all_ids, resource_query) = (all_ids', resource_query')"
      by (cases "for_loop d resource_query (all_ids, resource_query)")
    have unfold: "while_loop d old_resource_set all_ids resource_query
                  = while_loop d all_ids all_ids' resource_query'"
      using False step by (subst while_loop.simps) simp
    have grow: "all_ids \<subseteq> all_ids'"
      using for_loop_mono [of "(all_ids, resource_query)" d resource_query] step by simp
    have bound: "all_ids' \<subseteq> all_ids \<union> resource_ids d"
      using for_loop_bound [of d resource_query "(all_ids, resource_query)"] step by simp
    show ?thesis
    proof (cases "all_ids' = all_ids")
      case True
      then show ?thesis using unfold by (simp add: while_loop.simps)
    next
      case False
      then obtain x where x: "x \<in> all_ids'" "x \<notin> all_ids" using grow by blast
      then have xin: "x \<in> resource_ids d" using bound by blast
      have fin: "finite (resource_ids d - all_ids)" by (simp add: resource_ids_def)
      have "resource_ids d - all_ids' \<subset> resource_ids d - all_ids"
        using x xin grow by blast
      then have "card (resource_ids d - all_ids') < card (resource_ids d - all_ids)"
        using fin by (rule psubset_card_mono[rotated])
      from less [OF this] show ?thesis using unfold by simp
    qed
  qed
qed

text \<open>
  C7.  For every database state and every set of allocations, the \<^verbatim>\<open>while\<close> loop of
  \<^verbatim>\<open>_get_resource_query\<close> returns: \<^verbatim>\<open>_get_resource_query\<close> yields a query set.  One
  pass of the \<^verbatim>\<open>for\<close> loop never removes a key from \<open>all_ids\<close> and adds only keys of
  existing resources, and the finite set of resource keys bounds \<open>all_ids\<close>.
\<close>

theorem get_resource_query_terminates:
  "(\<exists>q. get_resource_query d proj_alloc = Some q)
   \<and> all_ids \<subseteq> fst (for_loop d rq (all_ids, rq))
   \<and> fst (for_loop d rq (all_ids, rq)) \<subseteq> all_ids \<union> resource_ids d
   \<and> finite (resource_ids d)"
proof -
  have "\<exists>q. get_resource_query d proj_alloc = Some q"
    unfolding get_resource_query_def Let_def by (rule while_loop_returns)
  moreover have "all_ids \<subseteq> fst (for_loop d rq (all_ids, rq))"
    using for_loop_mono [of "(all_ids, rq)" d rq] by simp
  moreover have "fst (for_loop d rq (all_ids, rq)) \<subseteq> all_ids \<union> resource_ids d"
    using for_loop_bound [of d rq "(all_ids, rq)"] by simp
  moreover have "finite (resource_ids d)" by (simp add: resource_ids_def)
  ultimately show ?thesis by blast
qed

subsection \<open>Export: the resources that are serialized\<close>

text \<open>
  C5.  On the database \<open>parent_db\<close> the export of project 1 serializes resources 2
  and 3: resource 2 is the resource of the project's allocation and resource 3 is its
  child.  Resource 1, the parent of resource 2, is not serialized, although
  \<^verbatim>\<open>_get_resource_query\<close> documents that it "also selects any parent or linked
  resources".
\<close>

theorem export_omits_parent_resource:
  "(case dispatch parent_db 1 of
      Some (Inr (msgs, JsonResponse serialized_data)) \<Rightarrow>
        map pk (serialized_data ! 7) = [2, 3]
        \<and> map (\<lambda>r. attrs r ''parent_resource_id'') (serialized_data ! 7) = [VInt 1, VInt 2]
        \<and> 1 \<in> set (map pk (parent_db ''resource.resource''))
    | _ \<Rightarrow> False)"
  by code_simp

subsection \<open>Import: a file that is not JSON\<close>

text \<open>
  C9.  When the upload passes the form and \<^verbatim>\<open>json.loads\<close> raises \<^verbatim>\<open>JSONDecodeError\<close> or
  \<^verbatim>\<open>UnicodeDecodeError\<close>, \<^verbatim>\<open>post\<close> returns normally with the database it started from,
  one error message, no call of \<^verbatim>\<open>save\<close>, and the redirect to the project list.
\<close>

theorem import_unparsable_file_leaves_db:
  "file_upload = JSONDecodeError_raised \<or> file_upload = UnicodeDecodeError_raised \<Longrightarrow>
     \<exists>out. import_post P d True file_upload = Inr out
       \<and> o_db out = d
       \<and> length (o_messages out) = 1
       \<and> o_saves out = []
       \<and> o_response out = HttpResponseRedirect ''project-list'' None"
  by (auto simp: import_post_def)

theorem import_unparsable_file_leaves_db_witness:
  "(JSONDecodeError_raised = JSONDecodeError_raised
      \<or> JSONDecodeError_raised = UnicodeDecodeError_raised)
   \<and> (\<exists>out. import_post fk_orm parent_db True JSONDecodeError_raised = Inr out
         \<and> o_db out = parent_db
         \<and> length (o_messages out) = 1
         \<and> o_saves out = []
         \<and> o_response out = HttpResponseRedirect ''project-list'' None)"
  using import_unparsable_file_leaves_db [of JSONDecodeError_raised fk_orm parent_db] by simp

subsection \<open>Import: the save pass\<close>

text \<open>
  The test \<^verbatim>\<open>isinstance(obj, Project)\<close> is applied to the \<^verbatim>\<open>DeserializedObject\<close>, so
  it never holds and the save pass leaves \<open>resave_proj\<close> as it found it.
\<close>

lemma save_objs_resave: "fst (snd (save_objs P key objs (d, b, l))) = b"
  by (induction objs arbitrary: d l) (auto split: option.splits)

lemma save_all_resave: "fst (snd (save_all P dd (d, b, l))) = b"
proof (induction dd arbitrary: d b l)
  case Nil
  show ?case by simp
next
  case (Cons entry rest)
  obtain d' b' l' where st: "save_objs P (fst entry) (snd entry) (d, b, l) = (d', b', l')"
    by (cases "save_objs P (fst entry) (snd entry) (d, b, l)") auto
  have "b' = b" using save_objs_resave [of P "fst entry" "snd entry" d b l] st by simp
  then show ?case using Cons.IH [of d' b' l'] st by simp
qed

text \<open>
  C4.  The document \<open>project_first_doc\<close> is imported into an empty database whose
  schema rejects a project without its PI.  Saving the project raises
  \<^verbatim>\<open>IntegrityError\<close>, because the user is saved after it.  The import saves the project
  once and the user once and ends: the project is not saved a second time and is not
  in the database, while the claim has it saved one additional time after the others.
\<close>

theorem project_save_not_retried:
  "(case import_post fk_orm empty_db True (Loaded project_first_doc) of
      Inr out \<Rightarrow>
        map fst (o_saves out) = [''project.project'', ''auth.user'']
        \<and> o_db out ''project.project'' = []
        \<and> map pk (o_db out ''auth.user'') = [1]
    | Inl e \<Rightarrow> False)"
  by code_simp

subsection \<open>Import: matching fields\<close>

lemma on_success_Inr: "(on_success r k = Inr w) = (\<exists>v. r = Inr v \<and> k v = Inr w)"
  by (cases r) (auto simp: on_success_def)

lemma map_err_Cons_Inr:
  "map_err f (x # xs) = Inr zs \<longleftrightarrow> (\<exists>y ys. f x = Inr y \<and> map_err f xs = Inr ys \<and> zs = y # ys)"
  by (auto split: sum.splits)

lemma map_of_update: "map_of (AList.update k v al) k' = (if k' = k then Some v else map_of al k')"
  by (simp add: update_conv')

lemma update_objs:
  "map_err (update_obj P fr f tbl) objs = Inr objs'
   \<Longrightarrow> (\<exists>vs. map_err (trans_lookup tbl fr) (map (\<lambda>obj. d_attrs obj f) objs) = Inr vs
            \<and> map (\<lambda>obj. d_attrs obj f) objs' = map VInt vs)
       \<and> (\<forall>g. g \<noteq> f \<longrightarrow> map (\<lambda>obj. d_attrs obj g) objs' = map (\<lambda>obj. d_attrs obj g) objs)
       \<and> (\<forall>n. map (\<lambda>obj. d_m2m obj n) objs' = map (\<lambda>obj. d_m2m obj n) objs)
       \<and> map d_pk objs' = map d_pk objs
       \<and> map d_model objs' = map d_model objs"
proof (induction objs arbitrary: objs')
  case Nil
  then show ?case by simp
next
  case (Cons obj objs)
  from Cons.prems obtain y ys where
    y: "update_obj P fr f tbl obj = Inr y"
    and ys: "map_err (update_obj P fr f tbl) objs = Inr ys"
    and eq: "objs' = y # ys"
    unfolding map_err_Cons_Inr by blast
  from y obtain v where v: "trans_lookup tbl fr (d_attrs obj f) = Inr v"
    and yv: "y = obj\<lparr>d_attrs := (d_attrs obj)(f := VInt v)\<rparr>"
    unfolding update_obj_def on_success_Inr getattr_def by (auto split: if_splits)
  from Cons.IH [OF ys] show ?case using v yv eq by auto
qed

lemma update_field_col:
  assumes "update_field P to_name fr f tbl st = Inr st'"
    and "attr_col (fst st) to_name f = Some col"
  shows "\<exists>vs. map_err (trans_lookup tbl fr) col = Inr vs
              \<and> attr_col (fst st') to_name f = Some (map VInt vs)"
proof -
  from assms(2) obtain objs where objs: "map_of (fst st) to_name = Some objs"
    and col: "col = map (\<lambda>obj. d_attrs obj f) objs"
    by (auto simp: attr_col_def)
  from assms(1) objs obtain objs' where
    m: "map_err (update_obj P fr f tbl) objs = Inr objs'"
    and st': "st' = (AList.update to_name objs' (fst st), snd st)"
    by (auto simp: update_field_def on_success_Inr)
  from update_objs [OF m] show ?thesis
    using col st' by (auto simp: attr_col_def map_of_update)
qed

lemma update_field_frame:
  assumes "update_field P to_name fr f tbl st = Inr st'"
  shows "(model \<noteq> to_name \<or> g \<noteq> f \<longrightarrow> attr_col (fst st') model g = attr_col (fst st) model g)
       \<and> m2m_col (fst st') model n = m2m_col (fst st) model n
       \<and> pk_col (fst st') model = pk_col (fst st) model"
proof (cases "map_of (fst st) to_name")
  case None
  then show ?thesis using assms by (auto simp: update_field_def)
next
  case (Some objs)
  from assms Some obtain objs' where
    m: "map_err (update_obj P fr f tbl) objs = Inr objs'"
    and st': "st' = (AList.update to_name objs' (fst st), snd st)"
    by (auto simp: update_field_def on_success_Inr)
  from update_objs [OF m] show ?thesis
    using Some st' by (auto simp: attr_col_def m2m_col_def pk_col_def map_of_update)
qed

lemma register_field_objs_props:
  "register_field_objs P fr f objs regist = Inr (objs', regist')
   \<Longrightarrow> map (\<lambda>obj. d_attrs obj f) objs' = map (\<lambda>_. VNone) objs
       \<and> (\<forall>g. g \<noteq> f \<longrightarrow> map (\<lambda>obj. d_attrs obj g) objs' = map (\<lambda>obj. d_attrs obj g) objs)
       \<and> (\<forall>n. map (\<lambda>obj. d_m2m obj n) objs' = map (\<lambda>obj. d_m2m obj n) objs)
       \<and> map d_pk objs' = map d_pk objs
       \<and> map d_model objs' = map d_model objs"
proof (induction objs arbitrary: objs' regist regist')
  case Nil
  then show ?case by simp
next
  case (Cons obj objs)
  from Cons.prems obtain trans ys r where
    rec: "register_field_objs P fr f objs
            (regist_put regist fr f (d_pk obj) (RegVal trans)) = Inr (ys, r)"
    and eq: "objs' = obj\<lparr>d_attrs := (d_attrs obj)(f := VNone)\<rparr> # ys"
    by (auto simp: on_success_Inr)
  from Cons.IH [OF rec] show ?case using eq by auto
qed

lemma register_field_frame:
  assumes "register_field P to_name fr f tbl st = Inr st'"
  shows "(model \<noteq> to_name \<or> g \<noteq> f \<longrightarrow> attr_col (fst st') model g = attr_col (fst st) model g)
       \<and> m2m_col (fst st') model n = m2m_col (fst st) model n
       \<and> pk_col (fst st') model = pk_col (fst st) model"
proof (cases "map_of (fst st) to_name")
  case None
  then show ?thesis using assms by (auto simp: register_field_def)
next
  case (Some objs)
  from assms Some obtain objs' r where
    rec: "register_field_objs P fr f objs (regist_init (snd st) fr f) = Inr (objs', r)"
    and st': "st' = (AList.update to_name objs' (fst st), r)"
    by (auto simp: register_field_def on_success_Inr)
  from register_field_objs_props [OF rec] show ?thesis
    using Some st' by (auto simp: attr_col_def m2m_col_def pk_col_def map_of_update)
qed

lemma update_m2m_objs:
  "map_err (\<lambda>des_obj.
       (case d_m2m des_obj n of
          None \<Rightarrow> Inl KeyError_m2m_data
        | Some lns \<Rightarrow>
            on_success (map_err (trans_lookup tbl fr) lns)
              (\<lambda>trans. Inr (des_obj\<lparr>d_m2m := (d_m2m des_obj)(n \<mapsto> map VInt trans)\<rparr>)))) objs
     = Inr objs'
   \<Longrightarrow> (\<exists>ls. map_err (translate_m2m tbl fr) (map (\<lambda>obj. d_m2m obj n) objs) = Inr ls
            \<and> map (\<lambda>obj. d_m2m obj n) objs' = map (\<lambda>l. Some (map VInt l)) ls)
       \<and> (\<forall>k. k \<noteq> n \<longrightarrow> map (\<lambda>obj. d_m2m obj k) objs' = map (\<lambda>obj. d_m2m obj k) objs)
       \<and> (\<forall>g. map (\<lambda>obj. d_attrs obj g) objs' = map (\<lambda>obj. d_attrs obj g) objs)
       \<and> map d_pk objs' = map d_pk objs"
proof (induction objs arbitrary: objs')
  case Nil
  then show ?case by simp
next
  case (Cons obj objs)
  let ?g = "\<lambda>des_obj.
       (case d_m2m des_obj n of
          None \<Rightarrow> Inl KeyError_m2m_data
        | Some lns \<Rightarrow>
            on_success (map_err (trans_lookup tbl fr) lns)
              (\<lambda>trans. Inr (des_obj\<lparr>d_m2m := (d_m2m des_obj)(n \<mapsto> map VInt trans)\<rparr>)))"
  from Cons.prems obtain y ys where y: "?g obj = Inr y" and ys: "map_err ?g objs = Inr ys"
    and eq: "objs' = y # ys"
    unfolding map_err_Cons_Inr by blast
  from y obtain lns trans where lns: "d_m2m obj n = Some lns"
    and tr: "map_err (trans_lookup tbl fr) lns = Inr trans"
    and yv: "y = obj\<lparr>d_m2m := (d_m2m obj)(n \<mapsto> map VInt trans)\<rparr>"
    by (auto simp: on_success_Inr split: option.splits)
  from Cons.IH [OF ys] show ?case using lns tr yv eq by (auto simp: translate_m2m_def)
qed

lemma update_m2m_col:
  assumes "update_m2m to_name fr n tbl st = Inr st'"
    and "m2m_col (fst st) to_name n = Some col"
  shows "if tbl fr = None then m2m_col (fst st') to_name n = Some col
         else (\<exists>ls. map_err (translate_m2m tbl fr) col = Inr ls
                 \<and> m2m_col (fst st') to_name n = Some (map (\<lambda>l. Some (map VInt l)) ls))"
proof -
  from assms(2) obtain objs where objs: "map_of (fst st) to_name = Some objs"
    and col: "col = map (\<lambda>obj. d_m2m obj n) objs"
    by (auto simp: m2m_col_def)
  show ?thesis
  proof (cases "tbl fr = None")
    case True
    then show ?thesis using assms objs by (auto simp: update_m2m_def)
  next
    case False
    from assms(1) objs False obtain objs' where
      m: "map_err (\<lambda>des_obj.
       (case d_m2m des_obj n of
          None \<Rightarrow> Inl KeyError_m2m_data
        | Some lns \<Rightarrow>
            on_success (map_err (trans_lookup tbl fr) lns)
              (\<lambda>trans. Inr (des_obj\<lparr>d_m2m := (d_m2m des_obj)(n \<mapsto> map VInt trans)\<rparr>)))) objs
         = Inr objs'"
      and st': "st' = (AList.update to_name objs' (fst st), snd st)"
      by (auto simp: update_m2m_def on_success_Inr)
    from update_m2m_objs [OF m] show ?thesis
      using False col st' by (auto simp: m2m_col_def map_of_update)
  qed
qed

lemma update_m2m_frame:
  assumes "update_m2m to_name fr n tbl st = Inr st'"
  shows "(model \<noteq> to_name \<or> k \<noteq> n \<longrightarrow> m2m_col (fst st') model k = m2m_col (fst st) model k)
       \<and> attr_col (fst st') model g = attr_col (fst st) model g
       \<and> pk_col (fst st') model = pk_col (fst st) model"
proof (cases "map_of (fst st) to_name")
  case None
  then show ?thesis using assms by (auto simp: update_m2m_def)
next
  case (Some objs)
  show ?thesis
  proof (cases "tbl fr = None")
    case True
    then show ?thesis using assms Some by (auto simp: update_m2m_def)
  next
    case False
    from assms Some False obtain objs' where
      m: "map_err (\<lambda>des_obj.
       (case d_m2m des_obj n of
          None \<Rightarrow> Inl KeyError_m2m_data
        | Some lns \<Rightarrow>
            on_success (map_err (trans_lookup tbl fr) lns)
              (\<lambda>trans. Inr (des_obj\<lparr>d_m2m := (d_m2m des_obj)(n \<mapsto> map VInt trans)\<rparr>)))) objs
         = Inr objs'"
      and st': "st' = (AList.update to_name objs' (fst st), snd st)"
      by (auto simp: update_m2m_def on_success_Inr)
    from update_m2m_objs [OF m] show ?thesis
      using Some st' by (auto simp: attr_col_def m2m_col_def pk_col_def map_of_update)
  qed
qed

lemma register_m2m_objs_props:
  "register_m2m_objs fr n tbl objs regist = Inr (objs', regist')
   \<Longrightarrow> map (\<lambda>obj. d_m2m obj n) objs' = map (\<lambda>_. Some []) objs
       \<and> (\<forall>k. k \<noteq> n \<longrightarrow> map (\<lambda>obj. d_m2m obj k) objs' = map (\<lambda>obj. d_m2m obj k) objs)
       \<and> (\<forall>g. map (\<lambda>obj. d_attrs obj g) objs' = map (\<lambda>obj. d_attrs obj g) objs)
       \<and> map d_pk objs' = map d_pk objs"
proof (induction objs arbitrary: objs' regist regist')
  case Nil
  then show ?case by simp
next
  case (Cons obj objs)
  from Cons.prems obtain lns trans ys r where lns: "d_m2m obj n = Some lns"
    and tr: "map_err (trans_lookup tbl fr) lns = Inr trans"
    and rec: "register_m2m_objs fr n tbl objs
                (regist_put regist fr n (d_pk obj) (RegList trans)) = Inr (ys, r)"
    and eq: "objs' = obj\<lparr>d_m2m := (d_m2m obj)(n \<mapsto> [])\<rparr> # ys"
    by (auto simp: on_success_Inr split: option.splits)
  from Cons.IH [OF rec] show ?case using eq by auto
qed

lemma register_m2m_frame:
  assumes "register_m2m to_name fr n tbl st = Inr st'"
  shows "(model \<noteq> to_name \<or> k \<noteq> n \<longrightarrow> m2m_col (fst st') model k = m2m_col (fst st) model k)
       \<and> attr_col (fst st') model g = attr_col (fst st) model g
       \<and> pk_col (fst st') model = pk_col (fst st) model"
proof (cases "map_of (fst st) to_name")
  case None
  then show ?thesis using assms by (auto simp: register_m2m_def)
next
  case (Some objs)
  from assms Some obtain ys r where
    rec: "register_m2m_objs fr n tbl objs (regist_init (snd st) fr n) = Inr (ys, r)"
    and st': "st' = (AList.update to_name ys (fst st), r)"
    by (auto simp: register_m2m_def on_success_Inr)
  from register_m2m_objs_props [OF rec] show ?thesis
    using Some st' by (auto simp: attr_col_def m2m_col_def pk_col_def map_of_update)
qed

lemma register_m2m_col:
  assumes "register_m2m to_name fr n tbl st = Inr st'"
    and "m2m_col (fst st) to_name n = Some col"
  shows "m2m_col (fst st') to_name n = Some (map (\<lambda>_. Some []) col)"
proof -
  from assms(2) obtain objs where objs: "map_of (fst st) to_name = Some objs"
    and col: "col = map (\<lambda>obj. d_m2m obj n) objs"
    by (auto simp: m2m_col_def)
  from assms(1) objs obtain ys r where
    rec: "register_m2m_objs fr n tbl objs (regist_init (snd st) fr n) = Inr (ys, r)"
    and st': "st' = (AList.update to_name ys (fst st), r)"
    by (auto simp: register_m2m_def on_success_Inr)
  from register_m2m_objs_props [OF rec] show ?thesis
    using col st' by (auto simp: m2m_col_def map_of_update)
qed

lemma run_calls_Nil: "run_calls P tbl [] st = Inr st"
  by (simp add: run_calls_def)

lemma run_calls_Cons:
  "run_calls P tbl (c # cs) st =
     (case run_call P tbl c st of Inl e \<Rightarrow> Inl e | Inr st' \<Rightarrow> run_calls P tbl cs st')"
  by (cases "run_call P tbl c st") (simp_all add: run_calls_def)

lemma run_call_attr_frame:
  "run_call P tbl c st = Inr st' \<Longrightarrow> \<not> writes_attr c model g
   \<Longrightarrow> attr_col (fst st') model g = attr_col (fst st) model g"
  by (cases c)
     (auto dest: update_field_frame [where model = model and g = g]
                 register_field_frame [where model = model and g = g]
                 register_m2m_frame [where model = model and g = g]
                 update_m2m_frame [where model = model and g = g])

lemma run_call_m2m_frame:
  "run_call P tbl c st = Inr st' \<Longrightarrow> \<not> writes_m2m c model k
   \<Longrightarrow> m2m_col (fst st') model k = m2m_col (fst st) model k"
  by (cases c)
     (auto dest: update_field_frame [where model = model and n = k]
                 register_field_frame [where model = model and n = k]
                 register_m2m_frame [where model = model and k = k]
                 update_m2m_frame [where model = model and k = k])


lemma run_calls_attr_frame:
  "run_calls P tbl cs st = Inr st' \<Longrightarrow> filter (\<lambda>c. writes_attr c model g) cs = []
   \<Longrightarrow> attr_col (fst st') model g = attr_col (fst st) model g"
proof (induction cs arbitrary: st)
  case Nil
  then show ?case by (simp add: run_calls_Nil)
next
  case (Cons c cs)
  from Cons.prems(1) obtain st1 where c: "run_call P tbl c st = Inr st1"
    and rest: "run_calls P tbl cs st1 = Inr st'"
    by (auto simp: run_calls_Cons split: sum.splits)
  from Cons.prems(2) have nw: "\<not> writes_attr c model g"
    and nws: "filter (\<lambda>c. writes_attr c model g) cs = []"
    by (auto split: if_splits)
  show ?case using Cons.IH [OF rest nws] run_call_attr_frame [OF c nw] by simp
qed

lemma run_calls_m2m_frame:
  "run_calls P tbl cs st = Inr st' \<Longrightarrow> filter (\<lambda>c. writes_m2m c model k) cs = []
   \<Longrightarrow> m2m_col (fst st') model k = m2m_col (fst st) model k"
proof (induction cs arbitrary: st)
  case Nil
  then show ?case by (simp add: run_calls_Nil)
next
  case (Cons c cs)
  from Cons.prems(1) obtain st1 where c: "run_call P tbl c st = Inr st1"
    and rest: "run_calls P tbl cs st1 = Inr st'"
    by (auto simp: run_calls_Cons split: sum.splits)
  from Cons.prems(2) have nw: "\<not> writes_m2m c model k"
    and nws: "filter (\<lambda>c. writes_m2m c model k) cs = []"
    by (auto split: if_splits)
  show ?case using Cons.IH [OF rest nws] run_call_m2m_frame [OF c nw] by simp
qed

lemma run_calls_attr_update:
  "run_calls P tbl cs st = Inr st'
   \<Longrightarrow> filter (\<lambda>c. writes_attr c to_name f) cs = [UpdateField to_name fr f]
   \<Longrightarrow> attr_col (fst st) to_name f = Some col
   \<Longrightarrow> \<exists>vs. map_err (trans_lookup tbl fr) col = Inr vs
              \<and> attr_col (fst st') to_name f = Some (map VInt vs)"
proof (induction cs arbitrary: st)
  case Nil
  then show ?case by simp
next
  case (Cons c cs)
  from Cons.prems(1) obtain st1 where c: "run_call P tbl c st = Inr st1"
    and rest: "run_calls P tbl cs st1 = Inr st'"
    by (auto simp: run_calls_Cons split: sum.splits)
  show ?case
  proof (cases "writes_attr c to_name f")
    case True
    with Cons.prems(2) have ceq: "c = UpdateField to_name fr f"
      and nws: "filter (\<lambda>c. writes_attr c to_name f) cs = []"
      by auto
    from c ceq have "update_field P to_name fr f tbl st = Inr st1" by simp
    from update_field_col [OF this Cons.prems(3)] obtain vs where
      vs: "map_err (trans_lookup tbl fr) col = Inr vs"
      and c1: "attr_col (fst st1) to_name f = Some (map VInt vs)" by blast
    from run_calls_attr_frame [OF rest nws] c1 vs show ?thesis by auto
  next
    case False
    with Cons.prems(2) have nws: "filter (\<lambda>c. writes_attr c to_name f) cs = [UpdateField to_name fr f]"
      by simp
    from run_call_attr_frame [OF c False] Cons.prems(3)
    have "attr_col (fst st1) to_name f = Some col" by simp
    from Cons.IH [OF rest nws this] show ?thesis .
  qed
qed

lemma run_calls_m2m_update:
  "run_calls P tbl cs st = Inr st'
   \<Longrightarrow> filter (\<lambda>c. writes_m2m c to_name n) cs = [UpdateM2M to_name fr n]
   \<Longrightarrow> m2m_col (fst st) to_name n = Some col
   \<Longrightarrow> (if tbl fr = None then m2m_col (fst st') to_name n = Some col
        else (\<exists>ls. map_err (translate_m2m tbl fr) col = Inr ls
                \<and> m2m_col (fst st') to_name n = Some (map (\<lambda>l. Some (map VInt l)) ls)))"
proof (induction cs arbitrary: st)
  case Nil
  then show ?case by simp
next
  case (Cons c cs)
  from Cons.prems(1) obtain st1 where c: "run_call P tbl c st = Inr st1"
    and rest: "run_calls P tbl cs st1 = Inr st'"
    by (auto simp: run_calls_Cons split: sum.splits)
  show ?case
  proof (cases "writes_m2m c to_name n")
    case True
    with Cons.prems(2) have ceq: "c = UpdateM2M to_name fr n"
      and nws: "filter (\<lambda>c. writes_m2m c to_name n) cs = []"
      by auto
    from c ceq have "update_m2m to_name fr n tbl st = Inr st1" by simp
    from update_m2m_col [OF this Cons.prems(3)] run_calls_m2m_frame [OF rest nws]
    show ?thesis by (auto split: if_splits)
  next
    case False
    with Cons.prems(2) have nws: "filter (\<lambda>c. writes_m2m c to_name n) cs = [UpdateM2M to_name fr n]"
      by simp
    from run_call_m2m_frame [OF c False] Cons.prems(3)
    have "m2m_col (fst st1) to_name n = Some col" by simp
    from Cons.IH [OF rest nws this] show ?thesis .
  qed
qed

lemma run_calls_m2m_register:
  "run_calls P tbl cs st = Inr st'
   \<Longrightarrow> filter (\<lambda>c. writes_m2m c to_name n) cs = [RegisterM2M to_name fr n]
   \<Longrightarrow> m2m_col (fst st) to_name n = Some col
   \<Longrightarrow> m2m_col (fst st') to_name n = Some (map (\<lambda>_. Some []) col)"
proof (induction cs arbitrary: st)
  case Nil
  then show ?case by simp
next
  case (Cons c cs)
  from Cons.prems(1) obtain st1 where c: "run_call P tbl c st = Inr st1"
    and rest: "run_calls P tbl cs st1 = Inr st'"
    by (auto simp: run_calls_Cons split: sum.splits)
  show ?case
  proof (cases "writes_m2m c to_name n")
    case True
    with Cons.prems(2) have ceq: "c = RegisterM2M to_name fr n"
      and nws: "filter (\<lambda>c. writes_m2m c to_name n) cs = []"
      by auto
    from c ceq have "register_m2m to_name fr n tbl st = Inr st1" by simp
    from register_m2m_col [OF this Cons.prems(3)] run_calls_m2m_frame [OF rest nws]
    show ?thesis by auto
  next
    case False
    with Cons.prems(2) have nws: "filter (\<lambda>c. writes_m2m c to_name n) cs = [RegisterM2M to_name fr n]"
      by simp
    from run_call_m2m_frame [OF c False] Cons.prems(3)
    have "m2m_col (fst st1) to_name n = Some col" by simp
    from Cons.IH [OF rest nws this] show ?thesis .
  qed
qed

lemma fk_fields_written_once:
  "list_all (\<lambda>x. filter (\<lambda>c. writes_attr c (fst x) (snd (snd x))) match_calls
                    = [UpdateField (fst x) (fst (snd x)) (snd (snd x))]) fk_fields"
  by (simp add: fk_fields_def match_calls_def batch_update_field_def)

lemma m2m_fields_written_once:
  "list_all (\<lambda>x. filter (\<lambda>c. writes_m2m c (fst x) (snd (snd x))) match_calls
                    = [UpdateM2M (fst x) (fst (snd x)) (snd (snd x))]) m2m_fields"
  by (simp add: m2m_fields_def match_calls_def batch_update_field_def)

lemma linked_resources_written_once:
  "filter (\<lambda>c. writes_m2m c ''resource.resource'' ''linked_resources'') match_calls
     = [RegisterM2M ''resource.resource'' ''resource.resource'' ''linked_resources'']"
  by (simp add: match_calls_def batch_update_field_def)

text \<open>
  C3 (amended).  When Step 3 completes, for every foreign-key field of the list
  \<open>fk_fields\<close> the column of that field over the objects filed under the key of its
  model is the elementwise translation of the imported column; every list passed to
  \<^verbatim>\<open>_update_m2m\<close> (\<open>m2m_fields\<close>) is translated elementwise when the translation table
  has the referenced model and is left as imported when it has not; and
  \<^verbatim>\<open>linked_resources\<close> of every object filed under \<^verbatim>\<open>resource.resource\<close> is the empty
  list.
\<close>

theorem match_fields_rewrites:
  assumes "match_fields P tbl dd = Inr (dd', regist)"
  shows "(\<forall>x \<in> set fk_fields. \<forall>col. attr_col dd (fst x) (snd (snd x)) = Some col \<longrightarrow>
            (\<exists>vs. map_err (trans_lookup tbl (fst (snd x))) col = Inr vs
                  \<and> attr_col dd' (fst x) (snd (snd x)) = Some (map VInt vs)))
       \<and> (\<forall>x \<in> set m2m_fields. \<forall>col. m2m_col dd (fst x) (snd (snd x)) = Some col \<longrightarrow>
            (if tbl (fst (snd x)) = None then m2m_col dd' (fst x) (snd (snd x)) = Some col
             else (\<exists>ls. map_err (translate_m2m tbl (fst (snd x))) col = Inr ls
                     \<and> m2m_col dd' (fst x) (snd (snd x))
                         = Some (map (\<lambda>l. Some (map VInt l)) ls))))
       \<and> (\<forall>col. m2m_col dd ''resource.resource'' ''linked_resources'' = Some col \<longrightarrow>
            m2m_col dd' ''resource.resource'' ''linked_resources''
              = Some (map (\<lambda>_. Some []) col))"
proof -
  from assms have run: "run_calls P tbl match_calls (dd, Map.empty) = Inr (dd', regist)"
    by (simp add: match_fields_def)
  have a: "\<exists>vs. map_err (trans_lookup tbl (fst (snd x))) col = Inr vs
                  \<and> attr_col dd' (fst x) (snd (snd x)) = Some (map VInt vs)"
    if "x \<in> set fk_fields" "attr_col dd (fst x) (snd (snd x)) = Some col" for x col
  proof -
    from that(1) fk_fields_written_once
    have "filter (\<lambda>c. writes_attr c (fst x) (snd (snd x))) match_calls
            = [UpdateField (fst x) (fst (snd x)) (snd (snd x))]"
      by (simp add: list_all_iff)
    from run_calls_attr_update [OF run this] that(2) show ?thesis by simp
  qed
  have b: "if tbl (fst (snd x)) = None then m2m_col dd' (fst x) (snd (snd x)) = Some col
             else (\<exists>ls. map_err (translate_m2m tbl (fst (snd x))) col = Inr ls
                     \<and> m2m_col dd' (fst x) (snd (snd x))
                         = Some (map (\<lambda>l. Some (map VInt l)) ls))"
    if "x \<in> set m2m_fields" "m2m_col dd (fst x) (snd (snd x)) = Some col" for x col
  proof -
    from that(1) m2m_fields_written_once
    have "filter (\<lambda>c. writes_m2m c (fst x) (snd (snd x))) match_calls
            = [UpdateM2M (fst x) (fst (snd x)) (snd (snd x))]"
      by (simp add: list_all_iff)
    from run_calls_m2m_update [OF run this] that(2) show ?thesis by (auto split: if_splits)
  qed
  have c: "m2m_col dd' ''resource.resource'' ''linked_resources'' = Some (map (\<lambda>_. Some []) col)"
    if "m2m_col dd ''resource.resource'' ''linked_resources'' = Some col" for col
    using run_calls_m2m_register [OF run linked_resources_written_once] that by simp
  from a b c show ?thesis by blast
qed

text \<open>
  C3 as stated fails on \<open>m2m_doc\<close>.  The document has no \<^verbatim>\<open>auth.group\<close> member, so the
  user's \<^verbatim>\<open>groups\<close> list is still the imported \<open>[3]\<close> after Step 3.  The
  \<^verbatim>\<open>linked_resources\<close> lists are empty although their translations are \<open>[2]\<close> and
  \<open>[1]\<close>.  The grant is filed under \<^verbatim>\<open>resource.resourcetype\<close>, the first model name of
  its member, so no call of Step 3 reaches it: its \<^verbatim>\<open>project_id\<close> is still the imported
  5, while the translation table maps project 5 to 1.
\<close>

theorem m2m_not_all_mapped:
  "(case assign_pks fk_orm empty_db (gather m2m_doc) of
      (tbl, dd) \<Rightarrow>
        (case match_fields fk_orm tbl dd of
           Inl e \<Rightarrow> False
         | Inr (dd', regist) \<Rightarrow>
             (case tbl ''auth.group'' of None \<Rightarrow> True | Some t \<Rightarrow> False)
             \<and> m2m_col dd ''auth.user'' ''groups'' = Some [Some [VInt 3]]
             \<and> m2m_col dd' ''auth.user'' ''groups'' = Some [Some [VInt 3]]
             \<and> m2m_col dd ''resource.resource'' ''linked_resources''
                 = Some [Some [VInt 2], Some [VInt 1]]
             \<and> map_err (translate_m2m tbl ''resource.resource'') [Some [VInt 2], Some [VInt 1]]
                 = Inr [[2], [1]]
             \<and> m2m_col dd' ''resource.resource'' ''linked_resources'' = Some [Some [], Some []]
             \<and> (case map_of dd' ''resource.resourcetype'' of
                   Some objs \<Rightarrow>
                     map (\<lambda>obj. (d_model obj, d_attrs obj ''project_id'')) objs
                       = [(''resource.resourcetype'', VNone), (''grant.grant'', VInt 5)]
                 | None \<Rightarrow> False)
             \<and> trans_lookup tbl ''project.project'' (VInt 5) = Inr 1))"
  by code_simp

theorem match_fields_rewrites_witness:
  "match_fields fk_orm (fst match_assigned) (snd match_assigned)
     = Inr (fst match_matched, snd match_matched)
   \<and> (\<exists>vs. map_err (trans_lookup (fst match_assigned) ''auth.user'') [VInt 7] = Inr vs
          \<and> attr_col (fst match_matched) ''project.project'' ''pi_id'' = Some (map VInt vs))
   \<and> m2m_col (fst match_matched) ''auth.user'' ''groups'' = Some [Some [VInt 3]]
   \<and> (\<exists>ls. map_err (translate_m2m (fst match_assigned) ''auth.user'') [Some [VInt 7], Some []]
              = Inr ls
          \<and> m2m_col (fst match_matched) ''resource.resource'' ''allowed_users''
              = Some (map (\<lambda>l. Some (map VInt l)) ls))
   \<and> m2m_col (fst match_matched) ''resource.resource'' ''linked_resources''
       = Some [Some [], Some []]"
proof -
  have "(case match_fields fk_orm (fst match_assigned) (snd match_assigned) of
           Inl e \<Rightarrow> False | Inr r \<Rightarrow> True)"
    by code_simp
  then have h: "match_fields fk_orm (fst match_assigned) (snd match_assigned)
                  = Inr (fst match_matched, snd match_matched)"
    by (cases "match_fields fk_orm (fst match_assigned) (snd match_assigned)")
       (simp_all add: match_matched_def)
  note r = match_fields_rewrites [OF h]
  have c1: "attr_col (snd match_assigned) ''project.project'' ''pi_id'' = Some [VInt 7]"
    by code_simp
  have c2: "m2m_col (snd match_assigned) ''auth.user'' ''groups'' = Some [Some [VInt 3]]"
    by code_simp
  have c3: "m2m_col (snd match_assigned) ''resource.resource'' ''allowed_users''
              = Some [Some [VInt 7], Some []]"
    by code_simp
  have c4: "m2m_col (snd match_assigned) ''resource.resource'' ''linked_resources''
              = Some [Some [VInt 2], Some [VInt 1]]"
    by code_simp
  have "(case fst match_assigned ''auth.group'' of None \<Rightarrow> True | Some t \<Rightarrow> False)"
    by code_simp
  then have g: "fst match_assigned ''auth.group'' = None"
    by (cases "fst match_assigned ''auth.group''") simp_all
  have "(case fst match_assigned ''auth.user'' of None \<Rightarrow> False | Some t \<Rightarrow> True)"
    by code_simp
  then have u: "fst match_assigned ''auth.user'' \<noteq> None"
    by (cases "fst match_assigned ''auth.user''") simp_all
  have f1: "(''project.project'', ''auth.user'', ''pi_id'') \<in> set fk_fields"
    by (simp add: fk_fields_def)
  have f2: "(''auth.user'', ''auth.group'', ''groups'') \<in> set m2m_fields"
    and f3: "(''resource.resource'', ''auth.user'', ''allowed_users'') \<in> set m2m_fields"
    by (simp_all add: m2m_fields_def)
  from r f1 c1 have a1: "\<exists>vs. map_err (trans_lookup (fst match_assigned) ''auth.user'') [VInt 7] = Inr vs
          \<and> attr_col (fst match_matched) ''project.project'' ''pi_id'' = Some (map VInt vs)"
    by fastforce
  from r f2 c2 g have a2: "m2m_col (fst match_matched) ''auth.user'' ''groups'' = Some [Some [VInt 3]]"
    by fastforce
  from r f3 c3 u have a3: "\<exists>ls. map_err (translate_m2m (fst match_assigned) ''auth.user'') [Some [VInt 7], Some []]
              = Inr ls
          \<and> m2m_col (fst match_matched) ''resource.resource'' ''allowed_users''
              = Some (map (\<lambda>l. Some (map VInt l)) ls)"
    by fastforce
  from r c4 have a4: "m2m_col (fst match_matched) ''resource.resource'' ''linked_resources''
       = Some [Some [], Some []]"
    by simp
  from h a1 a2 a3 a4 show ?thesis by blast
qed

subsection \<open>Import: primary keys and deduplication\<close>

lemma scan_existing_props:
  "scan_existing P key obj rows (a, t, n) = (a', t', n')
   \<Longrightarrow> a' = (a \<or> (key \<notin> duplicate_model_keys
                     \<and> list_ex (\<lambda>cur_obj. same_obj_exists P (d_model obj) cur_obj obj) rows))
       \<and> n \<le> n'
       \<and> (\<forall>k. k \<noteq> d_pk obj \<longrightarrow> t' k = t k)
       \<and> (\<forall>k. t k \<noteq> None \<longrightarrow> t' k \<noteq> None)
       \<and> (if key \<notin> duplicate_model_keys
              \<and> list_ex (\<lambda>cur_obj. same_obj_exists P (d_model obj) cur_obj obj) rows
           then (\<exists>cur \<in> set rows. same_obj_exists P (d_model obj) cur obj
                    \<and> t' = t(d_pk obj \<mapsto> pk cur))
           else t' = t \<and> (\<forall>r \<in> set rows. pk r \<le> n'))"
proof (induction rows arbitrary: a t n)
  case Nil
  then show ?case by simp
next
  case (Cons cur rows)
  show ?case
  proof (cases "key \<notin> duplicate_model_keys \<and> same_obj_exists P (d_model obj) cur obj")
    case True
    with Cons.prems have rec:
      "scan_existing P key obj rows (True, t(d_pk obj \<mapsto> pk cur), n) = (a', t', n')"
      by simp
    note ih = Cons.IH [OF rec]
    have tbl: "\<exists>c \<in> set (cur # rows). same_obj_exists P (d_model obj) c obj \<and> t' = t(d_pk obj \<mapsto> pk c)"
    proof (cases "list_ex (\<lambda>cur_obj. same_obj_exists P (d_model obj) cur_obj obj) rows")
      case True
      with ih \<open>key \<notin> duplicate_model_keys \<and> same_obj_exists P (d_model obj) cur obj\<close>
      obtain c where "c \<in> set rows" "same_obj_exists P (d_model obj) c obj"
        "t' = (t(d_pk obj \<mapsto> pk cur))(d_pk obj \<mapsto> pk c)"
        by auto
      then show ?thesis by auto
    next
      case False
      with ih have "t' = t(d_pk obj \<mapsto> pk cur)" by simp
      with \<open>key \<notin> duplicate_model_keys \<and> same_obj_exists P (d_model obj) cur obj\<close> show ?thesis by auto
    qed
    have "a'" using ih by simp
    moreover have "n \<le> n'" using ih by simp
    moreover have "\<forall>k. k \<noteq> d_pk obj \<longrightarrow> t' k = t k" using ih by simp
    moreover have "\<forall>k. t k \<noteq> None \<longrightarrow> t' k \<noteq> None" using ih by (simp split: if_splits)
    ultimately show ?thesis using tbl True by simp
  next
    case False
    with Cons.prems have rec:
      "scan_existing P key obj rows (a, t, if pk cur > n then pk cur else n) = (a', t', n')"
      by auto
    note ih = Cons.IH [OF rec]
    have meq: "(key \<notin> duplicate_model_keys
                  \<and> list_ex (\<lambda>cur_obj. same_obj_exists P (d_model obj) cur_obj obj) (cur # rows))
               = (key \<notin> duplicate_model_keys
                  \<and> list_ex (\<lambda>cur_obj. same_obj_exists P (d_model obj) cur_obj obj) rows)"
      using False by auto
    have n2: "n \<le> (if pk cur > n then pk cur else n)"
      and c2: "pk cur \<le> (if pk cur > n then pk cur else n)" by auto
    have "a' = (a \<or> (key \<notin> duplicate_model_keys
                     \<and> list_ex (\<lambda>cur_obj. same_obj_exists P (d_model obj) cur_obj obj) (cur # rows)))"
      using ih meq by simp
    moreover have "n \<le> n'" using ih n2 by linarith
    moreover have "\<forall>k. k \<noteq> d_pk obj \<longrightarrow> t' k = t k" using ih by simp
    moreover have "\<forall>k. t k \<noteq> None \<longrightarrow> t' k \<noteq> None" using ih by simp
    moreover have "if key \<notin> duplicate_model_keys
              \<and> list_ex (\<lambda>cur_obj. same_obj_exists P (d_model obj) cur_obj obj) (cur # rows)
           then (\<exists>c \<in> set (cur # rows). same_obj_exists P (d_model obj) c obj
                    \<and> t' = t(d_pk obj \<mapsto> pk c))
           else t' = t \<and> (\<forall>r \<in> set (cur # rows). pk r \<le> n')"
    proof (cases "key \<notin> duplicate_model_keys
              \<and> list_ex (\<lambda>cur_obj. same_obj_exists P (d_model obj) cur_obj obj) rows")
      case True
      with ih obtain c where "c \<in> set rows" "same_obj_exists P (d_model obj) c obj"
        "t' = t(d_pk obj \<mapsto> pk c)" by auto
      then have ex: "\<exists>c \<in> set (cur # rows). same_obj_exists P (d_model obj) c obj
                    \<and> t' = t(d_pk obj \<mapsto> pk c)" by auto
      from True meq have m': "key \<notin> duplicate_model_keys
              \<and> list_ex (\<lambda>cur_obj. same_obj_exists P (d_model obj) cur_obj obj) (cur # rows)" by blast
      show ?thesis unfolding if_P [OF m'] by (rule ex)
    next
      case nm: False
      with ih have "t' = t" and le: "\<forall>r \<in> set rows. pk r \<le> n'"
        and "(if pk cur > n then pk cur else n) \<le> n'" by auto
      with c2 have "pk cur \<le> n'" by linarith
      with le \<open>t' = t\<close> have r: "t' = t \<and> (\<forall>r \<in> set (cur # rows). pk r \<le> n')" by simp
      from nm meq have m': "\<not> (key \<notin> duplicate_model_keys
              \<and> list_ex (\<lambda>cur_obj. same_obj_exists P (d_model obj) cur_obj obj) (cur # rows))" by blast
      show ?thesis unfolding if_not_P [OF m'] by (rule r)
    qed
    ultimately show ?thesis by blast
  qed
qed

lemma assign_objs_Cons_dedup:
  assumes "deduplicated P d key obj"
    and "assign_objs P d key (obj # objs) t n = (t2, objs')"
  shows "\<exists>n1 ys cur. cur \<in> set (d (d_model obj)) \<and> same_obj_exists P (d_model obj) cur obj \<and> n \<le> n1
           \<and> assign_objs P d key objs (t(d_pk obj \<mapsto> pk cur)) n1 = (t2, ys)
           \<and> objs' = obj # ys"
proof -
  obtain a t1 n1 where sc: "scan_existing P key obj (d (d_model obj)) (False, t, n) = (a, t1, n1)"
    by (cases "scan_existing P key obj (d (d_model obj)) (False, t, n)") auto
  from scan_existing_props [OF sc] assms(1)
  obtain cur where a: "a" and n: "n \<le> n1" and cur: "cur \<in> set (d (d_model obj))"
    "same_obj_exists P (d_model obj) cur obj" "t1 = t(d_pk obj \<mapsto> pk cur)"
    by (auto simp: deduplicated_def)
  obtain t2' ys where rec: "assign_objs P d key objs t1 n1 = (t2', ys)"
    by (cases "assign_objs P d key objs t1 n1") auto
  from assms(2) sc a rec have "t2' = t2" "objs' = obj # ys" by auto
  with rec cur n show ?thesis by blast
qed

lemma assign_objs_Cons_new:
  assumes "\<not> deduplicated P d key obj"
    and "assign_objs P d key (obj # objs) t n = (t2, objs')"
  shows "\<exists>n1 ys. n \<le> n1 \<and> (\<forall>r \<in> set (d (d_model obj)). pk r \<le> n1)
           \<and> assign_objs P d key objs (t(d_pk obj \<mapsto> n1 + 1)) (n1 + 1) = (t2, ys)
           \<and> objs' = obj\<lparr>d_pk := VInt (n1 + 1)\<rparr> # ys"
proof -
  obtain a t1 n1 where sc: "scan_existing P key obj (d (d_model obj)) (False, t, n) = (a, t1, n1)"
    by (cases "scan_existing P key obj (d (d_model obj)) (False, t, n)") auto
  from scan_existing_props [OF sc] assms(1)
  have a: "\<not> a" and n: "n \<le> n1" and t1: "t1 = t" and le: "\<forall>r \<in> set (d (d_model obj)). pk r \<le> n1"
    by (auto simp: deduplicated_def split: if_splits)
  obtain t2' ys where rec:
    "assign_objs P d key objs (t(d_pk obj \<mapsto> n1 + 1)) (n1 + 1) = (t2', ys)"
    by (cases "assign_objs P d key objs (t(d_pk obj \<mapsto> n1 + 1)) (n1 + 1)") auto
  from assms(2) sc a t1 rec have "t2' = t2" "objs' = obj\<lparr>d_pk := VInt (n1 + 1)\<rparr> # ys"
    by (auto simp: Let_def)
  with rec le n show ?thesis by blast
qed

lemma assign_objs_length:
  "assign_objs P d key objs t n = (t2, objs') \<Longrightarrow> length objs' = length objs"
proof (induction objs arbitrary: t n objs')
  case Nil
  then show ?case by simp
next
  case (Cons obj objs)
  show ?case
  proof (cases "deduplicated P d key obj")
    case True
    from assign_objs_Cons_dedup [OF True Cons.prems] Cons.IH show ?thesis by auto
  next
    case False
    from assign_objs_Cons_new [OF False Cons.prems] Cons.IH show ?thesis by auto
  qed
qed

lemma assign_objs_attrs:
  "assign_objs P d key objs t n = (t2, objs')
   \<Longrightarrow> map d_attrs objs' = map d_attrs objs \<and> map d_m2m objs' = map d_m2m objs
       \<and> map d_model objs' = map d_model objs"
proof (induction objs arbitrary: t n objs')
  case Nil
  then show ?case by simp
next
  case (Cons obj objs)
  show ?case
  proof (cases "deduplicated P d key obj")
    case True
    from assign_objs_Cons_dedup [OF True Cons.prems] Cons.IH show ?thesis by auto
  next
    case False
    from assign_objs_Cons_new [OF False Cons.prems] Cons.IH show ?thesis by auto
  qed
qed

lemma assign_objs_table_mono:
  "assign_objs P d key objs t n = (t2, objs') \<Longrightarrow> t k \<noteq> None \<Longrightarrow> t2 k \<noteq> None"
proof (induction objs arbitrary: t n objs')
  case Nil
  then show ?case by simp
next
  case (Cons obj objs)
  show ?case
  proof (cases "deduplicated P d key obj")
    case True
    from assign_objs_Cons_dedup [OF True Cons.prems(1)] obtain n1 ys and cur :: row where
      rec: "assign_objs P d key objs (t(d_pk obj \<mapsto> pk cur)) n1 = (t2, ys)" by blast
    from Cons.IH [OF rec] Cons.prems(2) show ?thesis by simp
  next
    case False
    from assign_objs_Cons_new [OF False Cons.prems(1)] obtain n1 ys where
      rec: "assign_objs P d key objs (t(d_pk obj \<mapsto> n1 + 1)) (n1 + 1) = (t2, ys)" by blast
    from Cons.IH [OF rec] Cons.prems(2) show ?thesis by simp
  qed
qed

lemma assign_objs_table_other:
  "assign_objs P d key objs t n = (t2, objs') \<Longrightarrow> k \<notin> d_pk ` set objs \<Longrightarrow> t2 k = t k"
proof (induction objs arbitrary: t n objs')
  case Nil
  then show ?case by simp
next
  case (Cons obj objs)
  from Cons.prems(2) have k: "k \<noteq> d_pk obj" "k \<notin> d_pk ` set objs" by auto
  show ?case
  proof (cases "deduplicated P d key obj")
    case True
    from assign_objs_Cons_dedup [OF True Cons.prems(1)] obtain n1 ys and cur :: row where
      rec: "assign_objs P d key objs (t(d_pk obj \<mapsto> pk cur)) n1 = (t2, ys)" by blast
    from Cons.IH [OF rec k(2)] k(1) show ?thesis by simp
  next
    case False
    from assign_objs_Cons_new [OF False Cons.prems(1)] obtain n1 ys where
      rec: "assign_objs P d key objs (t(d_pk obj \<mapsto> n1 + 1)) (n1 + 1) = (t2, ys)" by blast
    from Cons.IH [OF rec k(2)] k(1) show ?thesis by simp
  qed
qed

lemma assign_objs_table_dom:
  "assign_objs P d key objs t n = (t2, objs') \<Longrightarrow> obj \<in> set objs \<Longrightarrow> t2 (d_pk obj) \<noteq> None"
proof (induction objs arbitrary: t n objs')
  case Nil
  then show ?case by simp
next
  case (Cons x objs)
  show ?case
  proof (cases "deduplicated P d key x")
    case True
    from assign_objs_Cons_dedup [OF True Cons.prems(1)] obtain n1 ys and cur :: row where
      rec: "assign_objs P d key objs (t(d_pk x \<mapsto> pk cur)) n1 = (t2, ys)" by blast
    show ?thesis
    proof (cases "obj \<in> set objs")
      case True
      from Cons.IH [OF rec True] show ?thesis .
    next
      case False
      with Cons.prems(2) have "obj = x" by simp
      then show ?thesis using assign_objs_table_mono [OF rec, of "d_pk x"] by simp
    qed
  next
    case False
    from assign_objs_Cons_new [OF False Cons.prems(1)] obtain n1 ys where
      rec: "assign_objs P d key objs (t(d_pk x \<mapsto> n1 + 1)) (n1 + 1) = (t2, ys)" by blast
    show ?thesis
    proof (cases "obj \<in> set objs")
      case True
      from Cons.IH [OF rec True] show ?thesis .
    next
      case False
      with Cons.prems(2) have "obj = x" by simp
      then show ?thesis using assign_objs_table_mono [OF rec, of "d_pk x"] by simp
    qed
  qed
qed


lemma assign_objs_new_nth:
  "assign_objs P d key objs t n = (t2, objs') \<Longrightarrow> i < length objs
   \<Longrightarrow> \<not> deduplicated P d key (objs ! i)
   \<Longrightarrow> \<exists>m. objs' ! i = (objs ! i)\<lparr>d_pk := VInt m\<rparr> \<and> n < m \<and> (\<forall>r \<in> set (d (d_model (objs ! i))). pk r < m)"
proof (induction objs arbitrary: t n objs' i)
  case Nil
  then show ?case by simp
next
  case (Cons obj objs)
  show ?case
  proof (cases "deduplicated P d key obj")
    case True
    from assign_objs_Cons_dedup [OF True Cons.prems(1)] obtain n1 ys and cur :: row where
      rec: "assign_objs P d key objs (t(d_pk obj \<mapsto> pk cur)) n1 = (t2, ys)"
      and eq: "objs' = obj # ys" and n1: "n \<le> n1" by blast
    show ?thesis
    proof (cases i)
      case 0
      with Cons.prems(3) True show ?thesis by simp
    next
      case (Suc i')
      with Cons.prems have "i' < length objs" "\<not> deduplicated P d key (objs ! i')" by auto
      from Cons.IH [OF rec this] obtain m where
        "ys ! i' = (objs ! i')\<lparr>d_pk := VInt m\<rparr>" "n1 < m" "\<forall>r \<in> set (d (d_model (objs ! i'))). pk r < m" by blast
      with n1 eq Suc show ?thesis by auto
    qed
  next
    case False
    from assign_objs_Cons_new [OF False Cons.prems(1)] obtain n1 ys where
      rec: "assign_objs P d key objs (t(d_pk obj \<mapsto> n1 + 1)) (n1 + 1) = (t2, ys)"
      and eq: "objs' = obj\<lparr>d_pk := VInt (n1 + 1)\<rparr> # ys"
      and n1: "n \<le> n1" and le: "\<forall>r \<in> set (d (d_model obj)). pk r \<le> n1" by blast
    show ?thesis
    proof (cases i)
      case 0
      have "n < n1 + 1" using n1 by simp
      moreover have "\<forall>r \<in> set (d (d_model obj)). pk r < n1 + 1" using le by auto
      ultimately show ?thesis using eq 0 by auto
    next
      case (Suc i')
      with Cons.prems have "i' < length objs" "\<not> deduplicated P d key (objs ! i')" by auto
      from Cons.IH [OF rec this] obtain m where
        "ys ! i' = (objs ! i')\<lparr>d_pk := VInt m\<rparr>" "n1 + 1 < m" "\<forall>r \<in> set (d (d_model (objs ! i'))). pk r < m"
        by blast
      with n1 eq Suc show ?thesis by auto
    qed
  qed
qed

lemma assign_objs_increasing:
  "assign_objs P d key objs t n = (t2, objs') \<Longrightarrow> i < j \<Longrightarrow> j < length objs
   \<Longrightarrow> \<not> deduplicated P d key (objs ! i) \<Longrightarrow> \<not> deduplicated P d key (objs ! j)
   \<Longrightarrow> d_pk (objs' ! i) = VInt a \<Longrightarrow> d_pk (objs' ! j) = VInt b \<Longrightarrow> a < b"
proof (induction objs arbitrary: t n objs' i j)
  case Nil
  then show ?case by simp
next
  case (Cons obj objs)
  from Cons.prems(2) obtain j' where j: "j = Suc j'" by (cases j) auto
  with Cons.prems have j': "j' < length objs" "\<not> deduplicated P d key (objs ! j')" by auto
  show ?case
  proof (cases "deduplicated P d key obj")
    case True
    from assign_objs_Cons_dedup [OF True Cons.prems(1)] obtain n1 ys and cur :: row where
      rec: "assign_objs P d key objs (t(d_pk obj \<mapsto> pk cur)) n1 = (t2, ys)"
      and eq: "objs' = obj # ys" by blast
    show ?thesis
    proof (cases i)
      case 0
      with Cons.prems(4) True show ?thesis by simp
    next
      case (Suc i')
      with Cons.prems j have "i' < j'" "\<not> deduplicated P d key (objs ! i')" by auto
      from Cons.IH [OF rec this(1) j'(1) this(2) j'(2)] Cons.prems(6,7) eq Suc j
      show ?thesis by simp
    qed
  next
    case False
    from assign_objs_Cons_new [OF False Cons.prems(1)] obtain n1 ys where
      rec: "assign_objs P d key objs (t(d_pk obj \<mapsto> n1 + 1)) (n1 + 1) = (t2, ys)"
      and eq: "objs' = obj\<lparr>d_pk := VInt (n1 + 1)\<rparr> # ys" by blast
    show ?thesis
    proof (cases i)
      case 0
      with Cons.prems(6) eq have a: "a = n1 + 1" by simp
      from assign_objs_new_nth [OF rec j'] obtain m where
        "ys ! j' = (objs ! j')\<lparr>d_pk := VInt m\<rparr>" "n1 + 1 < m" by blast
      with Cons.prems(7) eq j have "b = m" by simp
      with a \<open>n1 + 1 < m\<close> show ?thesis by simp
    next
      case (Suc i')
      with Cons.prems j have "i' < j'" "\<not> deduplicated P d key (objs ! i')" by auto
      from Cons.IH [OF rec this(1) j'(1) this(2) j'(2)] Cons.prems(6,7) eq Suc j
      show ?thesis by simp
    qed
  qed
qed

lemma assign_objs_table_new:
  "assign_objs P d key objs t n = (t2, objs') \<Longrightarrow> i < length objs
   \<Longrightarrow> \<not> deduplicated P d key (objs ! i)
   \<Longrightarrow> \<forall>j. i < j \<and> j < length objs \<longrightarrow> d_pk (objs ! j) \<noteq> d_pk (objs ! i)
   \<Longrightarrow> \<exists>m. d_pk (objs' ! i) = VInt m \<and> t2 (d_pk (objs ! i)) = Some m"
proof (induction objs arbitrary: t n objs' i)
  case Nil
  then show ?case by simp
next
  case (Cons obj objs)
  have tail: "\<forall>j. i' < j \<and> j < length objs \<longrightarrow> d_pk (objs ! j) \<noteq> d_pk (objs ! i')"
    if "i = Suc i'" for i'
  proof (intro allI impI)
    fix j assume "i' < j \<and> j < length objs"
    with that have "i < Suc j \<and> Suc j < length (obj # objs)" by simp
    with Cons.prems(4) have "d_pk ((obj # objs) ! Suc j) \<noteq> d_pk ((obj # objs) ! i)" by blast
    with that show "d_pk (objs ! j) \<noteq> d_pk (objs ! i')" by simp
  qed
  show ?case
  proof (cases "deduplicated P d key obj")
    case True
    from assign_objs_Cons_dedup [OF True Cons.prems(1)] obtain n1 ys and cur :: row where
      rec: "assign_objs P d key objs (t(d_pk obj \<mapsto> pk cur)) n1 = (t2, ys)"
      and eq: "objs' = obj # ys" by blast
    show ?thesis
    proof (cases i)
      case 0
      with Cons.prems(3) True show ?thesis by simp
    next
      case (Suc i')
      with Cons.prems have "i' < length objs" "\<not> deduplicated P d key (objs ! i')" by auto
      from Cons.IH [OF rec this tail [OF Suc]] show ?thesis using eq Suc by simp
    qed
  next
    case False
    from assign_objs_Cons_new [OF False Cons.prems(1)] obtain n1 ys where
      rec: "assign_objs P d key objs (t(d_pk obj \<mapsto> n1 + 1)) (n1 + 1) = (t2, ys)"
      and eq: "objs' = obj\<lparr>d_pk := VInt (n1 + 1)\<rparr> # ys" by blast
    show ?thesis
    proof (cases i)
      case 0
      have "d_pk obj \<notin> d_pk ` set objs"
      proof
        assume "d_pk obj \<in> d_pk ` set objs"
        then obtain j where "j < length objs" "d_pk (objs ! j) = d_pk obj"
          by (auto simp: in_set_conv_nth)
        with Cons.prems(4) 0 show False by (auto simp: nth_Cons')
      qed
      from assign_objs_table_other [OF rec this] eq 0 show ?thesis by simp
    next
      case (Suc i')
      with Cons.prems have "i' < length objs" "\<not> deduplicated P d key (objs ! i')" by auto
      from Cons.IH [OF rec this tail [OF Suc]] show ?thesis using eq Suc by simp
    qed
  qed
qed


lemma gather_fold_distinct:
  "distinct (map fst dd)
   \<Longrightarrow> distinct (map fst (fold (\<lambda>member dd. case fst member of
                                                None \<Rightarrow> dd
                                              | Some name \<Rightarrow> AList.update name (snd member) dd)
                              grouped_data dd))"
proof (induction grouped_data arbitrary: dd)
  case Nil
  then show ?case by simp
next
  case (Cons member grouped_data)
  have "distinct (map fst (case fst member of
                             None \<Rightarrow> dd
                           | Some name \<Rightarrow> AList.update name (snd member) dd))"
    using Cons.prems by (cases "fst member") (simp_all add: distinct_update)
  from Cons.IH [OF this] show ?case by simp
qed

lemma gather_distinct: "distinct (map fst (gather grouped_data))"
  unfolding gather_def by (rule gather_fold_distinct) simp

lemma assign_keys_other:
  "assign_keys P d dd tbl = (tbl', dd') \<Longrightarrow> key \<notin> fst ` set dd \<Longrightarrow> tbl' key = tbl key"
proof (induction dd arbitrary: tbl tbl' dd')
  case Nil
  then show ?case by simp
next
  case (Cons entry rest)
  obtain t objs1 where a: "assign_objs P d (fst entry) (snd entry) Map.empty 0 = (t, objs1)"
    by (cases "assign_objs P d (fst entry) (snd entry) Map.empty 0") auto
  obtain tbl2 rest' where r: "assign_keys P d rest (tbl(fst entry \<mapsto> t)) = (tbl2, rest')"
    by (cases "assign_keys P d rest (tbl(fst entry \<mapsto> t))") auto
  from Cons.prems(1) a r have "tbl' = tbl2" by simp
  moreover from Cons.prems(2) have "key \<noteq> fst entry" "key \<notin> fst ` set rest" by auto
  ultimately show ?case using Cons.IH [OF r] by simp
qed

lemma assign_keys_props:
  "distinct (map fst dd) \<Longrightarrow> assign_keys P d dd tbl = (tbl', dd')
   \<Longrightarrow> map_of dd key = Some objs
   \<Longrightarrow> \<exists>t objs'. assign_objs P d key objs Map.empty 0 = (t, objs')
          \<and> tbl' key = Some t \<and> map_of dd' key = Some objs'"
proof (induction dd arbitrary: tbl tbl' dd')
  case Nil
  then show ?case by simp
next
  case (Cons entry rest)
  obtain t objs1 where a: "assign_objs P d (fst entry) (snd entry) Map.empty 0 = (t, objs1)"
    by (cases "assign_objs P d (fst entry) (snd entry) Map.empty 0") auto
  obtain tbl2 rest' where r: "assign_keys P d rest (tbl(fst entry \<mapsto> t)) = (tbl2, rest')"
    by (cases "assign_keys P d rest (tbl(fst entry \<mapsto> t))") auto
  from Cons.prems(2) a r have eq: "tbl' = tbl2" "dd' = (fst entry, objs1) # rest'" by simp_all
  from Cons.prems(1) have dist: "distinct (map fst rest)" "fst entry \<notin> fst ` set rest" by auto
  show ?case
  proof (cases "key = fst entry")
    case True
    with Cons.prems(3) have "objs = snd entry" by (cases entry) simp
    moreover from assign_keys_other [OF r] dist(2) True have "tbl2 key = Some t" by simp
    ultimately show ?thesis using a eq True by simp
  next
    case False
    with Cons.prems(3) have "map_of rest key = Some objs" by (cases entry) simp
    from Cons.IH [OF dist(1) r this] show ?thesis using eq False by simp
  qed
qed

lemma assign_pks_props:
  assumes "assign_pks P d (gather grouped_data) = (tbl, dd')"
    and "map_of (gather grouped_data) key = Some objs"
  shows "\<exists>t objs'. assign_objs P d key objs Map.empty 0 = (t, objs')
          \<and> tbl key = Some t \<and> map_of dd' key = Some objs'"
  using assign_keys_props [OF gather_distinct] assms unfolding assign_pks_def by blast

text \<open>
  C1 (amended).  In Step 2, every deserialized object that is not deduplicated gets a
  new primary key that is greater than every primary key of the existing records of
  its model and differs from the new key of every other object filed under the same
  key of \<^verbatim>\<open>do_dict\<close>; and when no later object filed under that key has the same
  imported primary key, the translation table of that key maps its imported key to
  the new key.
\<close>

theorem assign_pks_new_key:
  assumes "assign_pks P d (gather grouped_data) = (tbl, dd')"
    and "map_of (gather grouped_data) key = Some objs"
    and "i < length objs"
    and "\<not> deduplicated P d key (objs ! i)"
  shows "\<exists>t objs' m. tbl key = Some t \<and> map_of dd' key = Some objs'
           \<and> length objs' = length objs
           \<and> objs' ! i = (objs ! i)\<lparr>d_pk := VInt m\<rparr>
           \<and> (\<forall>r \<in> set (d (d_model (objs ! i))). pk r < m)
           \<and> (\<forall>j. j < length objs \<and> j \<noteq> i \<and> \<not> deduplicated P d key (objs ! j)
                  \<longrightarrow> d_pk (objs' ! j) \<noteq> VInt m)
           \<and> ((\<forall>j. i < j \<and> j < length objs \<longrightarrow> d_pk (objs ! j) \<noteq> d_pk (objs ! i))
                  \<longrightarrow> t (d_pk (objs ! i)) = Some m)"
proof -
  from assign_pks_props [OF assms(1,2)] obtain t objs' where
    a: "assign_objs P d key objs Map.empty 0 = (t, objs')"
    and t: "tbl key = Some t" and o: "map_of dd' key = Some objs'" by blast
  from assign_objs_new_nth [OF a assms(3,4)] obtain m where
    m: "objs' ! i = (objs ! i)\<lparr>d_pk := VInt m\<rparr>"
    and gt: "\<forall>r \<in> set (d (d_model (objs ! i))). pk r < m"
    by blast
  have pk_i: "d_pk (objs' ! i) = VInt m" using m by simp
  have other: "d_pk (objs' ! j) \<noteq> VInt m"
    if "j < length objs" "j \<noteq> i" "\<not> deduplicated P d key (objs ! j)" for j
  proof
    assume eq: "d_pk (objs' ! j) = VInt m"
    show False
    proof (cases "i < j")
      case True
      from assign_objs_increasing [OF a True that(1) assms(4) that(3) pk_i eq]
      show False by simp
    next
      case False
      with that(2) have "j < i" by simp
      from assign_objs_increasing [OF a this assms(3) that(3) assms(4) eq pk_i]
      show False by simp
    qed
  qed
  have tab: "t (d_pk (objs ! i)) = Some m"
    if "\<forall>j. i < j \<and> j < length objs \<longrightarrow> d_pk (objs ! j) \<noteq> d_pk (objs ! i)"
    using assign_objs_table_new [OF a assms(3,4) that] pk_i by auto
  from t o assign_objs_length [OF a] m gt other tab show ?thesis by blast
qed

text \<open>
  C1 as stated fails on \<open>mixed_doc\<close>, imported into a database with one user (key 1).
  No object is deduplicated.  The user bob, filed under \<^verbatim>\<open>auth.group\<close>, and the user
  carl, filed under \<^verbatim>\<open>auth.user\<close>, are two imported objects of the same model and
  both get the new key 2.  The users carl and dave have the same imported key 9, and
  the translation table of \<^verbatim>\<open>auth.user\<close> maps 9 to 3, the key of dave, not to the key
  assigned to carl; it has no entry for 8, the imported key of bob.
\<close>

theorem same_model_same_new_key:
  "(case assign_pks fk_orm alice_db (gather mixed_doc) of
      (tbl, dd') \<Rightarrow>
        map (\<lambda>e. (fst e, map (\<lambda>obj. (d_model obj, d_pk obj)) (snd e))) dd'
          = [ (''auth.group'', [(''auth.group'', VInt 1), (''auth.user'', VInt 2)]),
              (''auth.user'', [(''auth.user'', VInt 2), (''auth.user'', VInt 3)]) ]
        \<and> map (\<lambda>e. map (deduplicated fk_orm alice_db (fst e)) (snd e)) (gather mixed_doc)
            = [[False, False], [False, False]]
        \<and> map pk (alice_db ''auth.user'') = [1]
        \<and> trans_lookup tbl ''auth.user'' (VInt 9) = Inr 3
        \<and> trans_lookup tbl ''auth.user'' (VInt 8) = Inl KeyError_trans_tbl)"
  by code_simp

theorem assign_pks_new_key_witness:
  "assign_pks fk_orm empty_db (gather same_pk_doc) = (fst same_pk_assigned, snd same_pk_assigned)
   \<and> map_of (gather same_pk_doc) ''grant.grant'' = Some same_pk_objs
   \<and> 1 < length same_pk_objs
   \<and> \<not> deduplicated fk_orm empty_db ''grant.grant'' (same_pk_objs ! 1)
   \<and> (\<exists>t objs' m. fst same_pk_assigned ''grant.grant'' = Some t
           \<and> map_of (snd same_pk_assigned) ''grant.grant'' = Some objs'
           \<and> length objs' = length same_pk_objs
           \<and> objs' ! 1 = (same_pk_objs ! 1)\<lparr>d_pk := VInt m\<rparr>
           \<and> (\<forall>r \<in> set (empty_db (d_model (same_pk_objs ! 1))). pk r < m)
           \<and> (\<forall>j. j < length same_pk_objs \<and> j \<noteq> 1
                    \<and> \<not> deduplicated fk_orm empty_db ''grant.grant'' (same_pk_objs ! j)
                  \<longrightarrow> d_pk (objs' ! j) \<noteq> VInt m)
           \<and> ((\<forall>j. 1 < j \<and> j < length same_pk_objs
                    \<longrightarrow> d_pk (same_pk_objs ! j) \<noteq> d_pk (same_pk_objs ! 1))
                  \<longrightarrow> t (d_pk (same_pk_objs ! 1)) = Some m))"
proof -
  have h1: "assign_pks fk_orm empty_db (gather same_pk_doc)
              = (fst same_pk_assigned, snd same_pk_assigned)"
    by (simp add: same_pk_assigned_def)
  have h2: "map_of (gather same_pk_doc) ''grant.grant'' = Some same_pk_objs"
    by (simp add: gather_def same_pk_doc_def)
  have h3: "1 < length same_pk_objs" by (simp add: same_pk_objs_def)
  have h4: "\<not> deduplicated fk_orm empty_db ''grant.grant'' (same_pk_objs ! 1)"
    by (simp add: deduplicated_def empty_db_def)
  from assign_pks_new_key [OF h1 h2 h3 h4] h1 h2 h3 h4 show ?thesis by blast
qed









subsection \<open>Import: the lookups of Step 3\<close>

lemma map_err_no_error:
  "list_all (\<lambda>x. f x \<noteq> Inl e) xs \<Longrightarrow> map_err f xs \<noteq> Inl e"
  by (induction xs) (auto split: sum.splits)

lemma map_err_found:
  "list_all (found tbl fr) vs \<Longrightarrow> \<exists>ms. map_err (trans_lookup tbl fr) vs = Inr ms"
  by (induction vs) (auto simp: found_def split: sum.splits)

lemma update_field_no_trans_error:
  assumes "lookups_ok tbl (fst st) (UpdateField t fr f)"
  shows "update_field P t fr f tbl st \<noteq> Inl KeyError_trans_tbl"
proof (cases "map_of (fst st) t")
  case None
  then show ?thesis by (simp add: update_field_def)
next
  case (Some objs)
  with assms have all: "list_all (\<lambda>obj. found tbl fr (d_attrs obj f)) objs"
    by (simp add: attr_col_def list_all_iff)
  have "list_all (\<lambda>des_obj. update_obj P fr f tbl des_obj \<noteq> Inl KeyError_trans_tbl) objs"
    using all
    by (auto simp: list_all_iff found_def update_obj_def getattr_def on_success_def
             split: sum.splits)
  from map_err_no_error [OF this] Some show ?thesis
    by (auto simp: update_field_def on_success_def split: sum.splits)
qed

lemma m2m_found_objs:
  "m2m_found tbl fr (map (\<lambda>obj. d_m2m obj n) objs)
   = list_all (\<lambda>obj. case d_m2m obj n of None \<Rightarrow> True
                      | Some lns \<Rightarrow> list_all (found tbl fr) lns) objs"
  by (simp add: m2m_found_def list_all_iff)

lemma update_m2m_no_trans_error:
  assumes "lookups_ok tbl (fst st) (UpdateM2M t fr n)"
  shows "update_m2m t fr n tbl st \<noteq> Inl KeyError_trans_tbl"
proof (cases "map_of (fst st) t")
  case None
  then show ?thesis by (simp add: update_m2m_def)
next
  case (Some objs)
  show ?thesis
  proof (cases "tbl fr = None")
    case True
    with Some show ?thesis by (simp add: update_m2m_def)
  next
    case False
    with Some assms have all: "list_all (\<lambda>obj. case d_m2m obj n of None \<Rightarrow> True
                                | Some lns \<Rightarrow> list_all (found tbl fr) lns) objs"
      by (simp add: m2m_col_def m2m_found_objs)
    have "list_all (\<lambda>des_obj.
       (case d_m2m des_obj n of
          None \<Rightarrow> Inl KeyError_m2m_data
        | Some lns \<Rightarrow>
            on_success (map_err (trans_lookup tbl fr) lns)
              (\<lambda>trans. Inr (des_obj\<lparr>d_m2m := (d_m2m des_obj)(n \<mapsto> map VInt trans)\<rparr>)))
        \<noteq> Inl KeyError_trans_tbl) objs"
      unfolding list_all_iff
    proof
      fix obj assume "obj \<in> set objs"
      with all have o: "case d_m2m obj n of None \<Rightarrow> True
                                | Some lns \<Rightarrow> list_all (found tbl fr) lns"
        by (simp add: list_all_iff)
      show "(case d_m2m obj n of
          None \<Rightarrow> Inl KeyError_m2m_data
        | Some lns \<Rightarrow>
            on_success (map_err (trans_lookup tbl fr) lns)
              (\<lambda>trans. Inr (obj\<lparr>d_m2m := (d_m2m obj)(n \<mapsto> map VInt trans)\<rparr>)))
        \<noteq> Inl KeyError_trans_tbl"
      proof (cases "d_m2m obj n")
        case None
        then show ?thesis by simp
      next
        case (Some lns)
        with o have "list_all (found tbl fr) lns" by simp
        from map_err_found [OF this] Some show ?thesis by (auto simp: on_success_def)
      qed
    qed
    from map_err_no_error [OF this] Some False show ?thesis
      by (auto simp: update_m2m_def on_success_def split: sum.splits)
  qed
qed

lemma register_m2m_objs_no_trans_error:
  "list_all (\<lambda>obj. case d_m2m obj n of None \<Rightarrow> True
                   | Some lns \<Rightarrow> list_all (found tbl fr) lns) objs
   \<Longrightarrow> register_m2m_objs fr n tbl objs regist \<noteq> Inl KeyError_trans_tbl"
proof (induction objs arbitrary: regist)
  case Nil
  then show ?case by simp
next
  case (Cons obj objs)
  show ?case
  proof (cases "d_m2m obj n")
    case None
    then show ?thesis by simp
  next
    case (Some lns)
    with Cons.prems have "list_all (found tbl fr) lns" by simp
    from map_err_found [OF this] obtain ms where
      ms: "map_err (trans_lookup tbl fr) lns = Inr ms" by blast
    from Cons.prems have rest: "list_all (\<lambda>obj. case d_m2m obj n of None \<Rightarrow> True
                   | Some lns \<Rightarrow> list_all (found tbl fr) lns) objs" by simp
    from Cons.IH [OF rest, of "regist_put regist fr n (d_pk obj) (RegList ms)"] Some ms
    show ?thesis by (auto simp: on_success_def split: sum.splits)
  qed
qed

lemma register_m2m_no_trans_error:
  assumes "lookups_ok tbl (fst st) (RegisterM2M t fr n)"
  shows "register_m2m t fr n tbl st \<noteq> Inl KeyError_trans_tbl"
proof (cases "map_of (fst st) t")
  case None
  then show ?thesis by (simp add: register_m2m_def)
next
  case (Some objs)
  with assms have all: "list_all (\<lambda>obj. case d_m2m obj n of None \<Rightarrow> True
                                | Some lns \<Rightarrow> list_all (found tbl fr) lns) objs"
    by (simp add: m2m_col_def m2m_found_objs)
  from register_m2m_objs_no_trans_error [OF all, of "regist_init (snd st) fr n"] Some
  show ?thesis by (auto simp: register_m2m_def on_success_def split: sum.splits)
qed

lemma register_field_objs_no_trans_error:
  "register_field_objs P fr f objs regist \<noteq> Inl KeyError_trans_tbl"
  by (induction objs arbitrary: regist)
     (auto simp: on_success_def getattr_def split: sum.splits)

lemma register_field_no_trans_error:
  "register_field P t fr f tbl st \<noteq> Inl KeyError_trans_tbl"
  using register_field_objs_no_trans_error
  by (auto simp: register_field_def on_success_def split: option.splits sum.splits)

lemma run_call_no_trans_error:
  "lookups_ok tbl (fst st) c \<Longrightarrow> run_call P tbl c st \<noteq> Inl KeyError_trans_tbl"
proof (cases c)
  case (UpdateField t fr f)
  assume "lookups_ok tbl (fst st) c"
  with UpdateField show ?thesis using update_field_no_trans_error by simp
next
  case (RegisterField t fr f)
  then show ?thesis using register_field_no_trans_error by simp
next
  case (RegisterM2M t fr n)
  assume "lookups_ok tbl (fst st) c"
  with RegisterM2M show ?thesis using register_m2m_no_trans_error by simp
next
  case (UpdateM2M t fr n)
  assume "lookups_ok tbl (fst st) c"
  with UpdateM2M show ?thesis using update_m2m_no_trans_error by simp
qed

lemma lookups_ok_frame:
  assumes "run_call P tbl c st = Inr st'" and "\<not> interferes c c'"
    and "lookups_ok tbl (fst st) c'"
  shows "lookups_ok tbl (fst st') c'"
proof (cases c')
  case (UpdateField t fr f)
  with assms(2) have "\<not> writes_attr c t f" by simp
  from run_call_attr_frame [OF assms(1) this] assms(3) UpdateField show ?thesis by simp
next
  case (RegisterField t fr f)
  then show ?thesis by simp
next
  case (RegisterM2M t fr n)
  with assms(2) have "\<not> writes_m2m c t n" by simp
  from run_call_m2m_frame [OF assms(1) this] assms(3) RegisterM2M show ?thesis by simp
next
  case (UpdateM2M t fr n)
  with assms(2) have "\<not> writes_m2m c t n" by simp
  from run_call_m2m_frame [OF assms(1) this] assms(3) UpdateM2M show ?thesis by simp
qed

lemma run_calls_no_trans_error:
  "independent cs \<Longrightarrow> list_all (lookups_ok tbl (fst st)) cs
   \<Longrightarrow> run_calls P tbl cs st \<noteq> Inl KeyError_trans_tbl"
proof (induction cs arbitrary: st)
  case Nil
  then show ?case by (simp add: run_calls_Nil)
next
  case (Cons c cs)
  from Cons.prems have c: "lookups_ok tbl (fst st) c"
    and rest: "list_all (lookups_ok tbl (fst st)) cs"
    and ni: "list_all (\<lambda>c'. \<not> interferes c c') cs" and ind: "independent cs" by simp_all
  show ?case
  proof (cases "run_call P tbl c st")
    case (Inl e)
    with run_call_no_trans_error [OF c, of P] show ?thesis by (auto simp: run_calls_Cons)
  next
    case (Inr st1)
    have "list_all (lookups_ok tbl (fst st1)) cs"
      unfolding list_all_iff
    proof
      fix c' assume c': "c' \<in> set cs"
      with ni rest have "\<not> interferes c c'" "lookups_ok tbl (fst st) c'"
        by (simp_all add: list_all_iff)
      from lookups_ok_frame [OF Inr this] show "lookups_ok tbl (fst st1) c'" .
    qed
    from Cons.IH [OF ind this] Inr show ?thesis by (simp add: run_calls_Cons)
  qed
qed

lemma match_calls_independent: "independent match_calls"
  by (simp add: match_calls_def batch_update_field_def)

lemma assign_keys_keys:
  "assign_keys P d dd tbl = (tbl', dd') \<Longrightarrow> map fst dd' = map fst dd"
proof (induction dd arbitrary: tbl tbl' dd')
  case Nil
  then show ?case by simp
next
  case (Cons entry rest)
  obtain t objs1 where a: "assign_objs P d (fst entry) (snd entry) Map.empty 0 = (t, objs1)"
    by (cases "assign_objs P d (fst entry) (snd entry) Map.empty 0") auto
  obtain tbl2 rest' where r: "assign_keys P d rest (tbl(fst entry \<mapsto> t)) = (tbl2, rest')"
    by (cases "assign_keys P d rest (tbl(fst entry \<mapsto> t))") auto
  from Cons.prems a r have "dd' = (fst entry, objs1) # rest'" by simp
  with Cons.IH [OF r] show ?case by simp
qed

lemma assign_pks_absent:
  assumes "assign_pks P d dd0 = (tbl, dd)" and "map_of dd0 key = None"
  shows "map_of dd key = None \<and> tbl key = None"
proof -
  from assms(1) have k: "map fst dd = map fst dd0"
    unfolding assign_pks_def by (rule assign_keys_keys)
  from assms(2) have nin: "key \<notin> fst ` set dd0" by (simp add: map_of_eq_None_iff)
  with k have "key \<notin> fst ` set dd" by (metis set_map)
  then have "map_of dd key = None" by (simp add: map_of_eq_None_iff)
  moreover from assign_keys_other [OF assms(1) [unfolded assign_pks_def] nin]
  have "tbl key = None" by simp
  ultimately show ?thesis by simp
qed

lemma assign_pks_cols:
  assumes "assign_pks P d (gather grouped_data) = (tbl, dd)"
  shows "attr_col dd key f = attr_col (gather grouped_data) key f
       \<and> m2m_col dd key n = m2m_col (gather grouped_data) key n"
proof (cases "map_of (gather grouped_data) key")
  case None
  from assign_pks_absent [OF assms None] None show ?thesis
    by (simp add: attr_col_def m2m_col_def)
next
  case (Some objs)
  from assign_pks_props [OF assms Some] obtain t objs' where
    a: "assign_objs P d key objs Map.empty 0 = (t, objs')"
    and o: "map_of dd key = Some objs'" by blast
  from assign_objs_attrs [OF a] have e1: "map d_attrs objs' = map d_attrs objs"
    and e2: "map d_m2m objs' = map d_m2m objs" by simp_all
  have "map (\<lambda>obj. d_attrs obj f) objs' = map (\<lambda>h. h f) (map d_attrs objs')" by simp
  also have "\<dots> = map (\<lambda>obj. d_attrs obj f) objs" unfolding e1 by simp
  finally have c1: "map (\<lambda>obj. d_attrs obj f) objs' = map (\<lambda>obj. d_attrs obj f) objs" .
  have "map (\<lambda>obj. d_m2m obj n) objs' = map (\<lambda>h. h n) (map d_m2m objs')" by simp
  also have "\<dots> = map (\<lambda>obj. d_m2m obj n) objs" unfolding e2 by simp
  finally have c2: "map (\<lambda>obj. d_m2m obj n) objs' = map (\<lambda>obj. d_m2m obj n) objs" .
  from Some o c1 c2 show ?thesis by (simp add: attr_col_def m2m_col_def)
qed

lemma refers_found:
  assumes "assign_pks P d (gather grouped_data) = (tbl, dd)"
    and "refers (gather grouped_data) fr v"
  shows "found tbl fr v"
proof -
  from assms(2) obtain src where src: "map_of (gather grouped_data) fr = Some src"
    and v: "v \<in> set (map d_pk src)"
    by (auto simp: refers_def split: option.splits)
  from assign_pks_props [OF assms(1) src] obtain t objs' where
    a: "assign_objs P d fr src Map.empty 0 = (t, objs')"
    and t: "tbl fr = Some t" by blast
  from v obtain obj where obj: "obj \<in> set src" "v = d_pk obj" by auto
  from assign_objs_table_dom [OF a obj(1)] obj(2) have "t v \<noteq> None" by simp
  with t show ?thesis by (auto simp: found_def trans_lookup_def)
qed

lemma m2m_refers_found:
  assumes "assign_pks P d (gather grouped_data) = (tbl, dd)"
    and "m2m_refers (gather grouped_data) fr n objs"
  shows "m2m_found tbl fr (map (\<lambda>obj. d_m2m obj n) objs)"
  using assms(2) refers_found [OF assms(1)]
  by (auto simp: m2m_refers_def m2m_found_objs list_all_iff split: option.splits)

lemma call_refs_lookups:
  assumes "assign_pks P d (gather grouped_data) = (tbl, dd)"
    and "call_refs_ok (gather grouped_data) c"
  shows "lookups_ok tbl dd c"
proof (cases c)
  case (UpdateField t fr f)
  show ?thesis
  proof (cases "map_of (gather grouped_data) t")
    case None
    with assign_pks_cols [OF assms(1), of t f] UpdateField show ?thesis
      by (simp add: attr_col_def)
  next
    case (Some objs)
    with assms(2) UpdateField
    have "list_all (\<lambda>obj. refers (gather grouped_data) fr (d_attrs obj f)) objs" by simp
    with refers_found [OF assms(1)]
    have all: "list_all (found tbl fr) (map (\<lambda>obj. d_attrs obj f) objs)"
      by (auto simp: list_all_iff)
    from Some have "attr_col (gather grouped_data) t f = Some (map (\<lambda>obj. d_attrs obj f) objs)"
      by (simp add: attr_col_def)
    with assign_pks_cols [OF assms(1), of t f]
    have "attr_col dd t f = Some (map (\<lambda>obj. d_attrs obj f) objs)" by simp
    with all UpdateField show ?thesis by simp
  qed
next
  case (RegisterField t fr f)
  then show ?thesis by simp
next
  case (RegisterM2M t fr n)
  show ?thesis
  proof (cases "map_of (gather grouped_data) t")
    case None
    with assign_pks_cols [OF assms(1), of t _ n] RegisterM2M show ?thesis
      by (simp add: m2m_col_def)
  next
    case (Some objs)
    with assms(2) RegisterM2M have "m2m_refers (gather grouped_data) fr n objs" by simp
    note all = m2m_refers_found [OF assms(1) this]
    from Some have "m2m_col (gather grouped_data) t n = Some (map (\<lambda>obj. d_m2m obj n) objs)"
      by (simp add: m2m_col_def)
    with assign_pks_cols [OF assms(1), of t fr n]
    have "m2m_col dd t n = Some (map (\<lambda>obj. d_m2m obj n) objs)" by simp
    with all RegisterM2M show ?thesis by simp
  qed
next
  case (UpdateM2M t fr n)
  show ?thesis
  proof (cases "map_of (gather grouped_data) t")
    case None
    with assign_pks_cols [OF assms(1), of t _ n] UpdateM2M show ?thesis
      by (simp add: m2m_col_def)
  next
    case (Some objs)
    show ?thesis
    proof (cases "map_of (gather grouped_data) fr")
      case None
      from assign_pks_absent [OF assms(1) None] have "tbl fr = None" by simp
      with UpdateM2M show ?thesis by (simp split: option.splits)
    next
      case fr: (Some src)
      with Some assms(2) UpdateM2M have "m2m_refers (gather grouped_data) fr n objs" by simp
      note all = m2m_refers_found [OF assms(1) this]
      from Some have "m2m_col (gather grouped_data) t n = Some (map (\<lambda>obj. d_m2m obj n) objs)"
        by (simp add: m2m_col_def)
      with assign_pks_cols [OF assms(1), of t fr n]
      have "m2m_col dd t n = Some (map (\<lambda>obj. d_m2m obj n) objs)" by simp
      with all UpdateM2M show ?thesis by simp
    qed
  qed
qed

text \<open>
  C6 (amended).  When every value that Step 3 looks up is the imported primary key of
  an object filed under the referenced model's name, no lookup in the translation
  table fails: Step 3 does not raise the \<^verbatim>\<open>KeyError\<close> of \<^verbatim>\<open>trans_tbl[from_name][index]\<close>,
  whatever the order of the members of the document and whatever the database.
\<close>

theorem lookups_succeed:
  assumes "refs_resolve (gather grouped_data)"
    and "assign_pks P d (gather grouped_data) = (tbl, dd)"
  shows "match_fields P tbl dd \<noteq> Inl KeyError_trans_tbl"
proof -
  from assms(1) call_refs_lookups [OF assms(2)]
  have "list_all (lookups_ok tbl dd) match_calls"
    by (auto simp: refs_resolve_def list_all_iff)
  then have "list_all (lookups_ok tbl (fst (dd, Map.empty :: regist_tbl))) match_calls" by simp
  from run_calls_no_trans_error [OF match_calls_independent this]
  show ?thesis by (simp add: match_fields_def)
qed

text \<open>
  C6 as stated fails on \<open>pi_filed_doc\<close> and on \<open>null_pi_doc\<close>.  Both meet the
  precondition in the words of the claim.  On the first, the translation table has
  no entry for \<^verbatim>\<open>auth.user\<close>, because no member is filed under that name, and the lookup
  of the project's \<^verbatim>\<open>pi_id\<close> raises \<^verbatim>\<open>KeyError\<close>.  On the second, \<^verbatim>\<open>_update_field\<close> looks
  up \<^verbatim>\<open>None\<close>, which is no imported key, and raises \<^verbatim>\<open>KeyError\<close>.
\<close>

theorem lookup_fails_for_filed_user:
  "refs_by_model (gather pi_filed_doc)
   \<and> (case assign_pks fk_orm empty_db (gather pi_filed_doc) of
         (tbl, dd) \<Rightarrow>
           (case tbl ''auth.user'' of None \<Rightarrow> True | Some t \<Rightarrow> False)
           \<and> (case match_fields fk_orm tbl dd of
                 Inl e \<Rightarrow> e = KeyError_trans_tbl
               | Inr r \<Rightarrow> False))
   \<and> refs_by_model (gather null_pi_doc)
   \<and> (case assign_pks fk_orm empty_db (gather null_pi_doc) of
         (tbl, dd) \<Rightarrow>
           (case match_fields fk_orm tbl dd of
              Inl e \<Rightarrow> e = KeyError_trans_tbl
            | Inr r \<Rightarrow> False))"
  by code_simp

theorem lookups_succeed_witness:
  "refs_resolve (gather match_doc)
   \<and> assign_pks fk_orm empty_db (gather match_doc) = (fst match_assigned, snd match_assigned)
   \<and> match_fields fk_orm (fst match_assigned) (snd match_assigned) \<noteq> Inl KeyError_trans_tbl"
proof -
  have h1: "refs_resolve (gather match_doc)" by code_simp
  have h2: "assign_pks fk_orm empty_db (gather match_doc)
              = (fst match_assigned, snd match_assigned)"
    by (simp add: match_assigned_def)
  from lookups_succeed [OF h1 h2] h1 h2 show ?thesis by blast
qed

end
